theory Spec2Isabelle
  imports Complex_Main "HOL-Library.Word" "HOL-Library.List_Lexorder" "HOL-Library.Char_ord"
begin

section \<open>Data model (types.ts)\<close>

text \<open>
  JavaScript strings are modelled as \<open>string\<close>; a \<open>char\<close> stands for one code unit.
  A JavaScript number is a double: the finite ones are modelled as rationals, the
  non-finite ones (which \<open>Number.isFinite\<close> rejects) by a constructor of their own.
  \<open>Date.now()\<close> yields integers.
\<close>

datatype jsnumber = Finite rat | NonFinite

datatype json =
    JNull
  | JBool bool
  | JNum jsnumber
  | JStr string
  | JArr "json list"
  | JObj "(string \<times> json) list"

text \<open>
  A thrown value: an \<open>Error\<close> instance with its message; any other value, together with
  what \<open>String(value)\<close> gives for it; or a value that \<open>String\<close> cannot convert (an object
  without \<open>toString\<close>, or one whose \<open>toString\<close> throws), together with what the conversion
  throws.
\<close>

datatype thrown = ErrorObj string | NonError string | NoString thrown

datatype PermissionLevel = Allow | Ask | Deny

record PermissionPolicy =
  fileWrite :: "PermissionLevel option"
  shellExecute :: "PermissionLevel option"
  networkAccess :: "PermissionLevel option"

text \<open>\<open>Required<PermissionPolicy>\<close>: the same three capabilities, none absent.\<close>

record RequiredPermissionPolicy =
  reqFileWrite :: PermissionLevel
  reqShellExecute :: PermissionLevel
  reqNetworkAccess :: PermissionLevel

datatype DoneStatus =
  StatusSuccess | StatusError | StatusInterrupted | StatusMaxTurns | StatusMaxBudget

datatype ToolStatus = ToolSuccess | ToolError | ToolDenied

record Usage =
  inputTokens :: rat
  outputTokens :: rat
  toolUses :: rat
  totalCostUsd :: "rat option"

text \<open>
  The payloads, with their fields in the order of the interfaces in the source; an
  \<open>unknown\<close> and the \<open>input\<close> of a tool are JSON values, the capabilities of an \<open>init\<close> a
  list of keys and values.
\<close>

datatype Payload =
    InitPayload string string "string list" "(string \<times> json) list option"
  | TextPayload string
  | TextDeltaPayload string
  | ThinkingPayload string
  | ErrorPayload "string option" string bool
  | PermissionRequestPayload string string json "string option"
  | ToolUsePayload string string json "string option"
  | ToolResultPayload string string ToolStatus json "rat option"
  | DonePayload DoneStatus "string option" Usage rat
  | ExtensionPayload json

text \<open>\<open>BaseEvent\<close> with its payload; \<open>etype\<close> is the field \<open>type\<close>.\<close>

record AgentEvent =
  etype :: string
  agent :: string
  timestamp :: int
  sessionId :: string
  metadata :: "(string \<times> json) list option"
  payload :: Payload

text \<open>
  An \<open>AbortSignal\<close> is held as the step of the run from which on \<open>signal.aborted\<close>
  reads true, \<open>None\<close> if the signal never fires. Step 0 is the moment of the call, and
  step \<open>k\<close> the moment the driver resumes from its \<open>k\<close>-th \<open>await\<close>. In \<open>runAgent\<close> a
  signal that fires while the driver awaits counts for the step at which the driver sees it,
  as the winner of the race or as \<open>signal.aborted\<close> after the \<open>await\<close>. In \<open>runParallel\<close>,
  which never reads \<open>signal.aborted\<close> in its loop, a signal that has fired by a step has
  settled the abort promise for the race of that round.
\<close>

type_synonym AbortSignal = "nat option"

record AgentOptions =
  cwd :: "string option"
  model :: "string option"
  permissions :: "PermissionPolicy option"
  maxTurns :: "rat option"
  maxBudgetUsd :: "rat option"
  resume :: "string option"
  abortSignal :: "AbortSignal option"
  allowedTools :: "string list option"
  disallowedTools :: "string list option"

text \<open>\<open>options?.abortSignal\<close>\<close>

definition signalOf :: "AgentOptions option \<Rightarrow> AbortSignal option" where
  "signalOf opts = (case opts of None \<Rightarrow> None | Some o' \<Rightarrow> abortSignal o')"

text \<open>\<open>signal?.aborted\<close>, read at step \<open>k\<close>.\<close>

definition abortedAt :: "AbortSignal option \<Rightarrow> nat \<Rightarrow> bool" where
  "abortedAt signal k =
     (case signal of
        None \<Rightarrow> False
      | Some None \<Rightarrow> False
      | Some (Some t) \<Rightarrow> t \<le> k)"

text \<open>
  The async generator an adapter's \<open>run\<close> returns, as the behaviour the driver can
  observe: the events it yields, how it completes after them (it returns, or it throws),
  and what its \<open>return()\<close> raises when the driver closes it, if anything.
\<close>

datatype Completion = Returns | Throws thrown

record Generator =
  yields :: "AgentEvent list"
  completion :: Completion
  returnThrows :: "thrown option"

record AgentAdapter =
  adapterAgent :: string
  run :: "string \<Rightarrow> AgentOptions option \<Rightarrow> Generator"

section \<open>Codex adapter: permission mapping\<close>

datatype CodexSandboxMode = ReadOnly | WorkspaceWrite | DangerFullAccess

datatype CodexApprovalPolicy = Never | Untrusted | OnRequest

record CodexPermissionOptions =
  sandboxMode :: CodexSandboxMode
  approvalPolicy :: CodexApprovalPolicy
  networkAccessEnabled :: bool

definition normalizePermissionLevel :: "PermissionLevel option \<Rightarrow> PermissionLevel" where
  "normalizePermissionLevel v = (case v of None \<Rightarrow> Ask | Some l \<Rightarrow> l)"

definition normalizePermissions :: "PermissionPolicy option \<Rightarrow> RequiredPermissionPolicy" where
  "normalizePermissions policy =
     \<lparr> reqFileWrite = normalizePermissionLevel (case policy of None \<Rightarrow> None | Some p \<Rightarrow> fileWrite p),
       reqShellExecute = normalizePermissionLevel (case policy of None \<Rightarrow> None | Some p \<Rightarrow> shellExecute p),
       reqNetworkAccess = normalizePermissionLevel (case policy of None \<Rightarrow> None | Some p \<Rightarrow> networkAccess p) \<rparr>"

definition mapPermissionsToCodexOptions :: "PermissionPolicy option \<Rightarrow> CodexPermissionOptions" where
  "mapPermissionsToCodexOptions policy =
     (let normalized = normalizePermissions policy;
          sandbox =
            (if reqFileWrite normalized = Deny \<or> reqShellExecute normalized = Deny
             then ReadOnly
             else if reqFileWrite normalized = Allow \<and> reqShellExecute normalized = Allow
             then DangerFullAccess
             else WorkspaceWrite);
          allAllow =
            (reqFileWrite normalized = Allow \<and>
             reqShellExecute normalized = Allow \<and>
             reqNetworkAccess normalized = Allow);
          anyAsk =
            (reqFileWrite normalized = Ask \<or>
             reqShellExecute normalized = Ask \<or>
             reqNetworkAccess normalized = Ask);
          approval = (if allAllow then Never else if anyAsk then Untrusted else OnRequest);
          network = (reqNetworkAccess normalized = Allow)
      in \<lparr> sandboxMode = sandbox, approvalPolicy = approval, networkAccessEnabled = network \<rparr>)"

text \<open>The capabilities of a policy with the absent ones read as \<open>ask\<close>.\<close>

definition capabilities :: "PermissionPolicy option \<Rightarrow> PermissionLevel list" where
  "capabilities policy =
     (let n = normalizePermissions policy
      in [reqFileWrite n, reqShellExecute n, reqNetworkAccess n])"

section \<open>NDJSON line framer (adapters/ndjson.ts)\<close>

type_synonym byte = "8 word"

text \<open>
  A chunk of a \<open>Readable\<close>: a string, a \<open>Buffer\<close>, a \<open>Uint8Array\<close>, or any
  other value, held as what \<open>String(chunk)\<close> gives for it.
\<close>

datatype chunk =
    StringChunk string
  | BufferChunk "byte list"
  | Uint8ArrayChunk "byte list"
  | OtherChunk string

text \<open>
  A readable stream that is iterated to its end: the chunks it delivers, and the error it
  raises after them, if it fails.
\<close>

record readable =
  chunks :: "chunk list"
  streamError :: "thrown option"

datatype NDJSONParseResult = Ok json | Fail string string

text \<open>
  The two library functions the framer calls are parameters: \<open>decodeBytes\<close> is
  \<open>Buffer.prototype.toString('utf8')\<close>, and \<open>JSON_parse\<close> is \<open>JSON.parse\<close>, which
  returns the parsed value or throws.
\<close>

definition chunkToString :: "(byte list \<Rightarrow> string) \<Rightarrow> chunk \<Rightarrow> string" where
  "chunkToString decodeBytes c =
     (case c of
        StringChunk s \<Rightarrow> s
      | BufferChunk b \<Rightarrow> decodeBytes b
      | Uint8ArrayChunk b \<Rightarrow> decodeBytes b
      | OtherChunk s \<Rightarrow> s)"

abbreviation LF :: char where "LF \<equiv> CHR 0x0A"
abbreviation CR :: char where "CR \<equiv> CHR 0x0D"

text \<open>
  The code units that \<open>String.prototype.trim\<close> removes (white space and line
  terminators), as far as a \<open>char\<close> can hold them: tab, line feed, vertical tab, form
  feed, carriage return, space and no-break space.
\<close>

definition isWhiteSpace :: "char \<Rightarrow> bool" where
  "isWhiteSpace c \<longleftrightarrow>
     c = CHR 0x09 \<or> c = LF \<or> c = CHR 0x0B \<or> c = CHR 0x0C \<or> c = CR \<or>
     c = CHR 0x20 \<or> c = CHR 0xA0"

definition trim :: "string \<Rightarrow> string" where
  "trim s = rev (dropWhile isWhiteSpace (rev (dropWhile isWhiteSpace s)))"

definition endsWith :: "string \<Rightarrow> char \<Rightarrow> bool" where
  "endsWith s c \<longleftrightarrow> s \<noteq> [] \<and> last s = c"

text \<open>\<open>indexOf\<close>: the index of the first occurrence; \<open>None\<close> is the source's \<open>-1\<close>.\<close>

fun indexOf :: "string \<Rightarrow> char \<Rightarrow> nat option" where
  "indexOf [] c = None"
| "indexOf (x # xs) c = (if x = c then Some 0 else map_option Suc (indexOf xs c))"

definition parseLine ::
  "(string \<Rightarrow> thrown + json) \<Rightarrow> string \<Rightarrow> NDJSONParseResult option" where
  "parseLine JSON_parse rawLine =
     (let line = (if endsWith rawLine CR then butlast rawLine else rawLine)
      in if length (trim line) = 0 then None
         else (case JSON_parse line of
                 Inr d \<Rightarrow> Some (Ok d)
               | Inl err \<Rightarrow>
                   Some (Fail (case err of ErrorObj m \<Rightarrow> m
                                | _ \<Rightarrow> ''Failed to parse NDJSON line'')
                              line)))"

text \<open>
  The inner \<open>while (true)\<close> loop: it cuts the complete lines off the buffer and
  returns the results yielded and the buffer that is left.
\<close>

function drainLines ::
  "(string \<Rightarrow> thrown + json) \<Rightarrow> string \<Rightarrow> NDJSONParseResult list \<times> string" where
  "drainLines JSON_parse buffer =
     (case indexOf buffer LF of
        None \<Rightarrow> ([], buffer)
      | Some newlineIndex \<Rightarrow>
          (case drainLines JSON_parse (drop (newlineIndex + 1) buffer) of
             (yielded, rest) \<Rightarrow>
               ((case parseLine JSON_parse (take newlineIndex buffer) of
                   None \<Rightarrow> []
                 | Some parsed \<Rightarrow> [parsed]) @ yielded, rest)))"
  by pat_completeness auto

lemma indexOf_less: "indexOf s c = Some i \<Longrightarrow> i < length s"
  by (induction s arbitrary: i) (auto split: if_splits)

termination drainLines
  by (relation "measure (\<lambda>(P, buffer). length buffer)") (auto dest: indexOf_less)

declare drainLines.simps [simp del]

text \<open>The \<open>for await\<close> loop over the chunks, with the buffer carried along.\<close>

fun consumeChunks ::
  "(string \<Rightarrow> thrown + json) \<Rightarrow> (byte list \<Rightarrow> string) \<Rightarrow> string \<Rightarrow> chunk list \<Rightarrow>
   NDJSONParseResult list \<times> string" where
  "consumeChunks JSON_parse decodeBytes buffer [] = ([], buffer)"
| "consumeChunks JSON_parse decodeBytes buffer (c # cs) =
     (case drainLines JSON_parse (buffer @ chunkToString decodeBytes c) of
        (yielded, buffer') \<Rightarrow>
          (case consumeChunks JSON_parse decodeBytes buffer' cs of
             (yielded', buffer'') \<Rightarrow> (yielded @ yielded', buffer'')))"

text \<open>
  \<open>parseNDJSON\<close>: the results it yields, and the exception it ends with, if any. The
  only exception it can end with is the stream's own.
\<close>

definition parseNDJSON ::
  "(string \<Rightarrow> thrown + json) \<Rightarrow> (byte list \<Rightarrow> string) \<Rightarrow> readable \<Rightarrow>
   NDJSONParseResult list \<times> thrown option" where
  "parseNDJSON JSON_parse decodeBytes stream =
     (case consumeChunks JSON_parse decodeBytes [] (chunks stream) of
        (yielded, buffer) \<Rightarrow>
          (case streamError stream of
             Some err \<Rightarrow> (yielded, Some err)
           | None \<Rightarrow>
               (yielded @
                (if length buffer > 0
                 then (case parseLine JSON_parse buffer of None \<Rightarrow> [] | Some parsed \<Rightarrow> [parsed])
                 else []),
                None)))"

subsection \<open>What the framer is to compute\<close>

text \<open>
  The segments of a text between its line feeds. The last segment is the residual that no
  line feed ends; all segments before it are complete lines.
\<close>

fun splitLines :: "string \<Rightarrow> string list" where
  "splitLines [] = [[]]"
| "splitLines (c # cs) =
     (if c = LF then [] # splitLines cs
      else (case splitLines cs of [] \<Rightarrow> [[c]] | l # ls \<Rightarrow> (c # l) # ls))"




subsection \<open>Sample library functions\<close>




section \<open>Event helpers (events.ts)\<close>

text \<open>
  \<open>Date.now()\<close> and \<open>generateSessionId()\<close> are read from the environment: the
  functions \<open>now\<close> and \<open>uuid\<close> give the value of the \<open>n\<close>-th call of each (counted
  from 0), and the drivers count their calls. Every caller below passes a session id to
  \<open>createEvent\<close>, so its default \<open>sessionId ?? generateSessionId()\<close> is never taken;
  \<open>createEvent\<close> gets the reading of its \<open>Date.now()\<close> as its first argument.
\<close>

definition createEvent ::
  "int \<Rightarrow> string \<Rightarrow> string \<Rightarrow> Payload \<Rightarrow> string \<Rightarrow> AgentEvent" where
  "createEvent t type ag pl sid =
     \<lparr> etype = type, agent = ag, timestamp = t, sessionId = sid, metadata = None,
       payload = pl \<rparr>"

section \<open>Engine (engine.ts)\<close>

text \<open>The result of one \<open>gen.next()\<close>, and a promise of it as it settles.\<close>

datatype IteratorResult = IterValue AgentEvent | IterDone

datatype Settled = Resolved IteratorResult | Rejected thrown

text \<open>
  \<open>gen.next()\<close>: the next event, or the completion once the events are used up; a
  generator that has thrown is finished.
\<close>

definition genNext :: "Generator \<Rightarrow> Settled \<times> Generator" where
  "genNext gen =
     (case yields gen of
        e # es \<Rightarrow> (Resolved (IterValue e), gen\<lparr> yields := es \<rparr>)
      | [] \<Rightarrow>
          (case completion gen of
             Returns \<Rightarrow> (Resolved IterDone, gen)
           | Throws err \<Rightarrow> (Rejected err, gen\<lparr> completion := Returns \<rparr>)))"

text \<open>
  \<open>safeReturn\<close> closes the generator and gives back the exception that escapes it:
  none, since a rejection of \<open>gen.return()\<close> is caught by \<open>.catch(() => {})\<close> and a
  synchronous throw by the \<open>try\<close>.
\<close>

definition safeReturn :: "Generator \<Rightarrow> thrown option" where
  "safeReturn gen = (case returnThrows gen of None \<Rightarrow> None | Some err \<Rightarrow> None)"

text \<open>
  \<open>raceAbort\<close> at step \<open>k\<close>: a signal that is aborted when the race is entered, or that
  fires before the promise settles, resolves the race with \<open>{ done: true }\<close>.
\<close>

definition raceAbort :: "Settled \<Rightarrow> AbortSignal option \<Rightarrow> nat \<Rightarrow> Settled" where
  "raceAbort promise signal k =
     (if abortedAt signal k then Resolved IterDone else promise)"

definition zeroUsage :: Usage where
  "zeroUsage = \<lparr> inputTokens = 0, outputTokens = 0, toolUses = 0, totalCostUsd = None \<rparr>"

text \<open>
  \<open>makeSynthDone\<close> reads the clock twice, first for the duration and then, in
  \<open>createEvent\<close>, for the timestamp; \<open>c\<close> is the number of readings taken before.
\<close>

definition makeSynthDone ::
  "(nat \<Rightarrow> int) \<Rightarrow> nat \<Rightarrow> string \<Rightarrow> DoneStatus \<Rightarrow> string \<Rightarrow> int \<Rightarrow> AgentEvent" where
  "makeSynthDone now c ag status sid startTime =
     createEvent (now (c + 1)) ''done'' ag
       (DonePayload status None zeroUsage (of_int (now c - startTime))) sid"

definition makeSynthError ::
  "(nat \<Rightarrow> int) \<Rightarrow> nat \<Rightarrow> string \<Rightarrow> string \<Rightarrow> string \<Rightarrow> string \<Rightarrow> AgentEvent" where
  "makeSynthError now c ag code message sid =
     createEvent (now c) ''error'' ag (ErrorPayload (Some code) message False) sid"

text \<open>
  \<open>err instanceof Error ? err.message : String(err)\<close>: the text, or what the conversion
  throws.
\<close>

definition errorText :: "thrown \<Rightarrow> thrown + string" where
  "errorText err =
     (case err of ErrorObj m \<Rightarrow> Inr m | NonError s \<Rightarrow> Inr s | NoString t \<Rightarrow> Inl t)"

text \<open>
  What a driver yields, marked with where it comes from: the index of the task (0 in
  \<open>runAgent\<close>), and whether the driver made the event itself or forwards one of the
  adapter's. The stream the caller sees is \<open>map ev\<close> of it.
\<close>

record Emitted =
  task :: nat
  synthesized :: bool
  ev :: AgentEvent

definition forward :: "nat \<Rightarrow> AgentEvent \<Rightarrow> Emitted" where
  "forward i e = \<lparr> task = i, synthesized = False, ev = e \<rparr>"

definition synth :: "nat \<Rightarrow> AgentEvent \<Rightarrow> Emitted" where
  "synth i e = \<lparr> task = i, synthesized = True, ev = e \<rparr>"

text \<open>The first exception of two steps run one after the other.\<close>

definition firstThrown :: "thrown option \<Rightarrow> thrown option \<Rightarrow> thrown option" where
  "firstThrown a b = (case a of Some err \<Rightarrow> Some err | None \<Rightarrow> b)"

text \<open>The \<open>finally\<close> block of \<open>runAgent\<close>.\<close>

definition runAgentFinally :: "bool \<Rightarrow> Generator \<Rightarrow> thrown option" where
  "runAgentFinally doneYielded gen = (if \<not> doneYielded then safeReturn gen else None)"

text \<open>
  The \<open>while (true)\<close> loop of \<open>runAgent\<close> with its \<open>finally\<close>: the events yielded and
  the exception that leaves the loop, if any. \<open>c\<close> counts the clock readings and \<open>k\<close>
  the awaits so far. An exception of the conversion in the \<open>catch\<close> block leaves the block
  before anything is yielded and goes through the \<open>finally\<close> to the caller.
\<close>

function runAgentLoop ::
  "(nat \<Rightarrow> int) \<Rightarrow> string \<Rightarrow> AbortSignal option \<Rightarrow> int \<Rightarrow> Generator \<Rightarrow> nat \<Rightarrow> nat \<Rightarrow>
   string \<Rightarrow> bool \<Rightarrow> Emitted list \<times> thrown option" where
  "runAgentLoop now ag signal startTime gen c k lastSessionId doneYielded =
     (case genNext gen of
        (promise, gen') \<Rightarrow>
          (case raceAbort promise signal (k + 1) of
             Rejected err \<Rightarrow>
               (if \<not> doneYielded
                then (case errorText err of
                        Inr msg \<Rightarrow>
                          ([synth 0 (makeSynthError now c ag ''ADAPTER_ERROR'' msg
                                       lastSessionId),
                            synth 0 (makeSynthDone now (c + 1) ag StatusError lastSessionId
                                       startTime)],
                           firstThrown (safeReturn gen') (runAgentFinally doneYielded gen'))
                      | Inl t \<Rightarrow>
                          (case runAgentFinally doneYielded gen' of
                             Some e \<Rightarrow> ([], Some e)
                           | None \<Rightarrow> ([], Some t)))
                else ([], firstThrown (safeReturn gen') (runAgentFinally doneYielded gen')))
           | Resolved result \<Rightarrow>
               if abortedAt signal (k + 1)
               then ((if \<not> doneYielded
                      then [synth 0 (makeSynthDone now c ag StatusInterrupted lastSessionId
                                       startTime)]
                      else []),
                     firstThrown (safeReturn gen') (runAgentFinally doneYielded gen'))
               else (case result of
                       IterDone \<Rightarrow>
                         ((if \<not> doneYielded
                           then [synth 0 (makeSynthError now c ag ''MISSING_DONE''
                                    ''Protocol violation: adapter completed without terminal event''
                                    lastSessionId),
                                 synth 0 (makeSynthDone now (c + 1) ag StatusError
                                    lastSessionId startTime)]
                           else []),
                          runAgentFinally doneYielded gen')
                     | IterValue event \<Rightarrow>
                         if doneYielded
                         then runAgentLoop now ag signal startTime gen' c (k + 1)
                                lastSessionId doneYielded
                         else if etype event = ''done''
                         then ([forward 0 event],
                               firstThrown (safeReturn gen') (runAgentFinally True gen'))
                         else (case runAgentLoop now ag signal startTime gen' c (k + 1)
                                      (sessionId event) doneYielded of
                                 (rest, thrown) \<Rightarrow> (forward 0 event # rest, thrown)))))"
  by pat_completeness auto

lemma genNext_value_shorter:
  "genNext gen = (Resolved (IterValue e), gen') \<Longrightarrow> length (yields gen') < length (yields gen)"
  by (auto simp: genNext_def split: list.splits Completion.splits)

lemma raceAbort_value:
  "raceAbort promise signal k = Resolved (IterValue e) \<Longrightarrow> promise = Resolved (IterValue e)"
  by (auto simp: raceAbort_def split: if_splits)

termination runAgentLoop
  by (relation "measure (\<lambda>(now, ag, signal, startTime, gen, c, k, sid, dy). length (yields gen))")
    (auto dest!: raceAbort_value dest: genNext_value_shorter [OF sym])

declare runAgentLoop.simps [simp del]

text \<open>
  The adapter registry is a \<open>Map\<close> from agent names to adapters. \<open>runAgent\<close> gives what
  it has yielded and the exception it then throws to its caller, or, when it ends normally,
  what it yields together with the number of calls of \<open>adapter.run\<close> it made. An adapter's
  \<open>run\<close> is an async generator function: calling it returns the generator and runs
  nothing of the adapter.
\<close>

type_synonym AdapterRegistry = "string \<rightharpoonup> AgentAdapter"

record RunResult =
  emitted :: "Emitted list"
  runCalls :: nat

definition runAgent ::
  "(nat \<Rightarrow> int) \<Rightarrow> (nat \<Rightarrow> string) \<Rightarrow> string \<Rightarrow> string \<Rightarrow> AgentOptions option \<Rightarrow>
   AdapterRegistry \<Rightarrow> (Emitted list \<times> thrown) + RunResult" where
  "runAgent now uuid ag prompt opts registry =
     (case registry ag of
        None \<Rightarrow> Inl ([], ErrorObj (''No adapter registered for agent: '' @ ag))
      | Some adapter \<Rightarrow>
          (let sid = uuid 0;
               startTime = now 0;
               signal = signalOf opts
           in if abortedAt signal 0
              then Inr \<lparr> emitted = [synth 0 (makeSynthDone now 1 ag StatusInterrupted sid
                                                startTime)],
                         runCalls = 0 \<rparr>
              else (case runAgentLoop now ag signal startTime (run adapter prompt opts)
                           1 0 sid False of
                      (out, None) \<Rightarrow> Inr \<lparr> emitted = out, runCalls = 1 \<rparr>
                    | (out, Some err) \<Rightarrow> Inl (out, err))))"

text \<open>The stream of events the caller of a driver sees.\<close>

definition events :: "RunResult \<Rightarrow> AgentEvent list" where
  "events r = map ev (emitted r)"

definition isDone :: "AgentEvent \<Rightarrow> bool" where
  "isDone e \<longleftrightarrow> etype e = ''done''"

subsection \<open>runParallel\<close>

text \<open>
  A task, and the state the driver keeps for it; \<open>states[index]\<close> is \<open>None\<close> once the
  state is set to \<open>null\<close>. \<open>pending\<close> is the \<open>Map\<close> from task indices to the promises
  of their next results, in insertion order; a promise is held as what it settles to.
\<close>

record ParallelTask =
  taskAdapter :: AgentAdapter
  taskPrompt :: string
  taskOptions :: "AgentOptions option"

record AdapterState =
  stGen :: Generator
  stAgent :: string
  stStartTime :: int
  stSessionId :: string
  stDoneYielded :: bool

text \<open>\<open>states[index]\<close>, \<open>pending.delete(index)\<close> and \<open>pending.set(index, promise)\<close>\<close>

definition stateAt :: "AdapterState option list \<Rightarrow> nat \<Rightarrow> AdapterState option" where
  "stateAt states index = (if index < length states then states ! index else None)"

definition pendingDelete :: "nat \<Rightarrow> (nat \<times> Settled) list \<Rightarrow> (nat \<times> Settled) list" where
  "pendingDelete index pending = filter (\<lambda>(i, p). i \<noteq> index) pending"

definition pendingSet ::
  "nat \<Rightarrow> Settled \<Rightarrow> (nat \<times> Settled) list \<Rightarrow> (nat \<times> Settled) list" where
  "pendingSet index promise pending =
     (if index \<in> fst ` set pending
      then map (\<lambda>(i, p). if i = index then (i, promise) else (i, p)) pending
      else pending @ [(index, promise)])"

text \<open>
  \<open>scheduleNext(index)\<close>: nothing for a state that is \<open>null\<close>; else the generator is
  advanced and what its \<open>next()\<close> settles to is stored under the index.
\<close>

definition scheduleNext ::
  "AdapterState option list \<Rightarrow> (nat \<times> Settled) list \<Rightarrow> nat \<Rightarrow>
   AdapterState option list \<times> (nat \<times> Settled) list" where
  "scheduleNext states pending index =
     (case stateAt states index of
        None \<Rightarrow> (states, pending)
      | Some state \<Rightarrow>
          (case genNext (stGen state) of
             (promise, gen') \<Rightarrow>
               (states[index := Some (state\<lparr> stGen := gen' \<rparr>)],
                pendingSet index promise pending)))"

text \<open>
  \<open>yieldInterruptedAndCleanup()\<close>: one \<open>done{interrupted}\<close> for every state that is
  left and has not yielded \<open>done\<close>, in the order of the tasks; \<open>c\<close> counts the clock
  readings and \<open>i\<close> is the index of the head of the list.
\<close>

fun yieldInterruptedAndCleanup ::
  "(nat \<Rightarrow> int) \<Rightarrow> nat \<Rightarrow> nat \<Rightarrow> AdapterState option list \<Rightarrow> Emitted list" where
  "yieldInterruptedAndCleanup now c i [] = []"
| "yieldInterruptedAndCleanup now c i (None # rest) =
     yieldInterruptedAndCleanup now c (i + 1) rest"
| "yieldInterruptedAndCleanup now c i (Some state # rest) =
     (if \<not> stDoneYielded state
      then synth i (makeSynthDone now c (stAgent state) StatusInterrupted (stSessionId state)
                      (stStartTime state)) #
           yieldInterruptedAndCleanup now (c + 2) (i + 1) rest
      else yieldInterruptedAndCleanup now c (i + 1) rest)"

text \<open>Events yielded before the loop goes on.\<close>

definition emit ::
  "Emitted list \<Rightarrow> Emitted list \<times> thrown option \<Rightarrow> Emitted list \<times> thrown option" where
  "emit xs r = (case r of (out, t) \<Rightarrow> (xs @ out, t))"

text \<open>
  \<open>Promise.race([...pending.values(), abortPromise])\<close>: the racers are the pending promises,
  in the order of the \<open>Map\<close>, and after them the abort promise, which is settled once one
  of the signals has fired. Which racer is the first to have settled is the environment's
  choice (a promise that had settled before the signal fired wins over the abort promise,
  one that has not yet settled loses to it): the number \<open>n\<close> picks the winner among the
  racers. \<open>None\<close> is the abort sentinel.
\<close>

definition raceWinner ::
  "nat \<Rightarrow> (nat \<times> Settled) list \<Rightarrow> bool \<Rightarrow> (nat \<times> Settled) option" where
  "raceWinner n pending fired =
     (if fired
      then (if n mod (length pending + 1) < length pending
            then Some (pending ! (n mod (length pending + 1)))
            else None)
      else Some (pending ! (n mod length pending)))"

text \<open>
  The \<open>while (pending.size > 0)\<close> loop. \<open>sched k\<close> decides the race of round \<open>k\<close>, and
  \<open>c\<close> counts the clock readings. The result is what the driver yields and the exception
  it ends with, if any: an exception of the conversion of a thrown value leaves the loop
  before anything is yielded for it, and the \<open>finally\<close> block, which closes the generators
  that are left, raises nothing.
\<close>

function parallelLoop ::
  "(nat \<Rightarrow> int) \<Rightarrow> (nat \<Rightarrow> nat) \<Rightarrow> AbortSignal list \<Rightarrow> AdapterState option list \<Rightarrow>
   (nat \<times> Settled) list \<Rightarrow> nat \<Rightarrow> nat \<Rightarrow> Emitted list \<times> thrown option" where
  "parallelLoop now sched signals states pending c k =
     (if pending = [] then ([], None)
      else (case raceWinner (sched k) pending
                   (list_ex (\<lambda>s. abortedAt (Some s) (k + 1)) signals) of
              None \<Rightarrow> (yieldInterruptedAndCleanup now c 0 states, None)
            | Some (index, raceResult) \<Rightarrow>
                (case stateAt states index of
                   None \<Rightarrow> ([], Some (ErrorObj ''TypeError''))
                 | Some state \<Rightarrow>
                     (case raceResult of
                        Rejected err \<Rightarrow>
                          (if \<not> stDoneYielded state
                           then (case errorText err of
                                   Inl t \<Rightarrow> ([], Some t)
                                 | Inr msg \<Rightarrow>
                                     emit
                                       [synth index (makeSynthError now c (stAgent state)
                                          ''ADAPTER_ERROR'' msg (stSessionId state)),
                                        synth index (makeSynthDone now (c + 1) (stAgent state)
                                          StatusError (stSessionId state) (stStartTime state))]
                                       (parallelLoop now sched signals (states[index := None])
                                          (pendingDelete index pending) (c + 3) (k + 1)))
                           else parallelLoop now sched signals (states[index := None])
                                  (pendingDelete index pending) c (k + 1))
                      | Resolved IterDone \<Rightarrow>
                          (if \<not> stDoneYielded state
                           then emit
                                  [synth index (makeSynthError now c (stAgent state)
                                     ''MISSING_DONE''
                                     ''Protocol violation: adapter completed without terminal event''
                                     (stSessionId state)),
                                   synth index (makeSynthDone now (c + 1) (stAgent state)
                                     StatusError (stSessionId state) (stStartTime state))]
                                  (parallelLoop now sched signals (states[index := None])
                                     (pendingDelete index pending) (c + 3) (k + 1))
                           else parallelLoop now sched signals (states[index := None])
                                  (pendingDelete index pending) c (k + 1))
                      | Resolved (IterValue event) \<Rightarrow>
                          if stDoneYielded state
                          then (case scheduleNext states (pendingDelete index pending) index of
                                  (states', pending') \<Rightarrow>
                                    parallelLoop now sched signals states' pending' c (k + 1))
                          else if etype event = ''done''
                          then emit [forward index event]
                                 (parallelLoop now sched signals (states[index := None])
                                    (pendingDelete index pending) c (k + 1))
                          else (case scheduleNext
                                       (states[index := Some (state\<lparr> stSessionId := sessionId event \<rparr>)])
                                       (pendingDelete index pending) index of
                                  (states', pending') \<Rightarrow>
                                    emit [forward index event]
                                      (parallelLoop now sched signals states' pending' c
                                         (k + 1)))))))"
  by pat_completeness auto

text \<open>
  Termination of the loop: each pending promise stands for the events its generator has
  left, and every round of the loop uses one up.
\<close>

definition weight :: "AdapterState option list \<Rightarrow> nat \<times> Settled \<Rightarrow> nat" where
  "weight states entry =
     (case entry of
        (i, Resolved (IterValue e)) \<Rightarrow>
          (case stateAt states i of
             None \<Rightarrow> 2
           | Some st \<Rightarrow> 2 + 2 * length (yields (stGen st)))
      | (i, _) \<Rightarrow> 1)"

definition load :: "AdapterState option list \<Rightarrow> (nat \<times> Settled) list \<Rightarrow> nat" where
  "load states pending = sum_list (map (weight states) pending)"

lemma weight_pos: "0 < weight states entry"
  by (auto simp: weight_def split: prod.splits Settled.splits IteratorResult.splits option.splits)

lemma weight_update_other:
  "fst entry \<noteq> index \<Longrightarrow> weight (states[index := x]) entry = weight states entry"
  by (auto simp: weight_def stateAt_def split: prod.splits Settled.splits IteratorResult.splits)

lemma load_delete_update:
  "load (states[index := x]) (pendingDelete index pending) = load states (pendingDelete index pending)"
proof -
  have "map (weight (states[index := x])) (pendingDelete index pending) =
        map (weight states) (pendingDelete index pending)"
    by (rule map_cong) (auto simp: pendingDelete_def weight_update_other)
  then show ?thesis unfolding load_def by (rule arg_cong)
qed

lemma load_delete_le: "load states (pendingDelete index pending) \<le> load states pending"
  by (induction pending) (auto simp: load_def pendingDelete_def)

lemma load_delete_member:
  "(index, p) \<in> set pending \<Longrightarrow>
   load states (pendingDelete index pending) + weight states (index, p) \<le> load states pending"
proof (induction pending)
  case Nil
  then show ?case by simp
next
  case (Cons a pending)
  show ?case
  proof (cases "a = (index, p)")
    case True
    with load_delete_le [of states index pending] show ?thesis
      by (simp add: load_def pendingDelete_def)
  next
    case False
    with Cons have "load states (pendingDelete index pending) + weight states (index, p)
        \<le> load states pending" by simp
    then show ?thesis
      by (cases a) (auto simp: load_def pendingDelete_def)
  qed
qed

lemma pendingSet_fresh:
  "pendingSet index promise (pendingDelete index pending) =
     pendingDelete index pending @ [(index, promise)]"
  by (auto simp: pendingSet_def pendingDelete_def)

lemma picked_member: "pending \<noteq> [] \<Longrightarrow> pending ! (n mod length pending) \<in> set pending"
  by simp

lemma raceWinner_member:
  "pending \<noteq> [] \<Longrightarrow> raceWinner n pending fired = Some entry \<Longrightarrow> entry \<in> set pending"
  by (auto simp: raceWinner_def split: if_splits)

lemma load_drop_picked:
  assumes "(index, r) \<in> set pending"
  shows "load (states[index := x]) (pendingDelete index pending) < load states pending"
  using load_delete_member [OF assms, of states] weight_pos [of states "(index, r)"]
  by (simp add: load_delete_update)

lemma load_scheduleNext:
  assumes "scheduleNext (states[index := Some st0]) (pendingDelete index pending) index =
             (states', pending')"
    and mem: "(index, Resolved (IterValue e)) \<in> set pending"
    and "stateAt states index = Some st" and "stGen st0 = stGen st"
  shows "load states' pending' < load states pending"
proof -
  from assms(3) have lt: "index < length states"
    by (simp add: stateAt_def split: if_splits)
  obtain promise gen' where gn: "genNext (stGen st) = (promise, gen')"
    by (cases "genNext (stGen st)")
  with assms(1,4) lt have s': "states' = states[index := Some (st0\<lparr> stGen := gen' \<rparr>)]"
    and p': "pending' = pendingDelete index pending @ [(index, promise)]"
    by (simp_all add: scheduleNext_def pendingSet_fresh stateAt_def)
  have w: "weight states' (index, promise) < weight states (index, Resolved (IterValue e))"
    using gn assms(3) lt
    by (auto simp: s' weight_def stateAt_def genNext_def
        split: list.splits Completion.splits Settled.splits IteratorResult.splits)
  have "load states' pending' =
      load states (pendingDelete index pending) + weight states' (index, promise)"
    unfolding p' s' using load_delete_update [of states index _ pending]
    by (simp add: load_def)
  with w load_delete_member [OF mem, of states] show ?thesis by simp
qed

lemma stateAt_update_id: "stateAt states index = Some st \<Longrightarrow> states[index := Some st] = states"
proof -
  assume "stateAt states index = Some st"
  then have "states ! index = Some st"
    by (simp add: stateAt_def split: if_splits)
  then show ?thesis
    by (metis list_update_id)
qed

lemma term_drop:
  "pending \<noteq> [] \<Longrightarrow> raceWinner n pending fired = Some entry \<Longrightarrow> (index, r) = entry \<Longrightarrow>
   load (states[index := x]) (pendingDelete index pending) < load states pending"
  by (rule load_drop_picked [of index r]) (simp add: raceWinner_member)

lemma term_sched_upd:
  "pending \<noteq> [] \<Longrightarrow> raceWinner n pending fired = Some entry \<Longrightarrow>
   (index, Resolved (IterValue e)) = entry \<Longrightarrow>
   stateAt states index = Some st \<Longrightarrow>
   (states', pending') =
     scheduleNext (states[index := Some (st\<lparr> stSessionId := sid \<rparr>)])
       (pendingDelete index pending) index \<Longrightarrow>
   load states' pending' < load states pending"
  using load_scheduleNext [of states index "st\<lparr> stSessionId := sid \<rparr>" pending states' pending' e st]
    raceWinner_member [of pending n fired "(index, Resolved (IterValue e))"]
  by simp

lemma term_sched_same:
  "pending \<noteq> [] \<Longrightarrow> raceWinner n pending fired = Some entry \<Longrightarrow>
   (index, Resolved (IterValue e)) = entry \<Longrightarrow>
   stateAt states index = Some st \<Longrightarrow>
   (states', pending') = scheduleNext states (pendingDelete index pending) index \<Longrightarrow>
   load states' pending' < load states pending"
  using load_scheduleNext [of states index st pending states' pending' e st]
    raceWinner_member [of pending n fired "(index, Resolved (IterValue e))"]
  by (simp add: stateAt_update_id)

termination parallelLoop
  apply (relation "measure (\<lambda>(now, sched, signals, states, pending, c, k). load states pending)")
          apply simp_all
        apply (erule (4) term_sched_same)
       apply (erule (2) term_drop)
      apply (erule (4) term_sched_upd)
     apply (erule (2) term_drop)+
  done

declare parallelLoop.simps [simp del]

text \<open>
  The short circuit on a signal that is aborted at the call: per task a session id, a start
  time, and the two clock readings of \<open>makeSynthDone\<close>.
\<close>

fun preAbortedDones ::
  "(nat \<Rightarrow> int) \<Rightarrow> (nat \<Rightarrow> string) \<Rightarrow> nat \<Rightarrow> ParallelTask list \<Rightarrow> Emitted list" where
  "preAbortedDones now uuid i [] = []"
| "preAbortedDones now uuid i (t # ts) =
     synth i (makeSynthDone now (3 * i + 1) (adapterAgent (taskAdapter t)) StatusInterrupted
                (uuid i) (now (3 * i))) #
     preAbortedDones now uuid (i + 1) ts"

text \<open>
  \<open>tasks.map(...)\<close> calls \<open>run\<close> of every adapter and reads the clock and a session id
  once per task; the \<open>for\<close> loop then schedules every task.
\<close>

definition initialStates ::
  "(nat \<Rightarrow> int) \<Rightarrow> (nat \<Rightarrow> string) \<Rightarrow> ParallelTask list \<Rightarrow> AdapterState option list" where
  "initialStates now uuid tasks =
     map (\<lambda>(i, t).
            Some \<lparr> stGen = run (taskAdapter t) (taskPrompt t) (taskOptions t),
                   stAgent = adapterAgent (taskAdapter t),
                   stStartTime = now i,
                   stSessionId = uuid i,
                   stDoneYielded = False \<rparr>)
         (enumerate 0 tasks)"

definition scheduleAll ::
  "AdapterState option list \<Rightarrow> AdapterState option list \<times> (nat \<times> Settled) list" where
  "scheduleAll states =
     fold (\<lambda>i (st, pending). scheduleNext st pending i) [0..<length states] (states, [])"

definition taskSignals :: "ParallelTask list \<Rightarrow> AbortSignal list" where
  "taskSignals tasks = List.map_filter (\<lambda>t. signalOf (taskOptions t)) tasks"

text \<open>\<open>runParallel\<close>, drained by its consumer.\<close>

definition runParallel ::
  "(nat \<Rightarrow> int) \<Rightarrow> (nat \<Rightarrow> string) \<Rightarrow> (nat \<Rightarrow> nat) \<Rightarrow> ParallelTask list \<Rightarrow>
   (Emitted list \<times> thrown) + RunResult" where
  "runParallel now uuid sched tasks =
     (if length tasks = 0 then Inr \<lparr> emitted = [], runCalls = 0 \<rparr>
      else if list_ex (\<lambda>t. abortedAt (signalOf (taskOptions t)) 0) tasks
      then Inr \<lparr> emitted = preAbortedDones now uuid 0 tasks, runCalls = 0 \<rparr>
      else (case scheduleAll (initialStates now uuid tasks) of
              (states, pending) \<Rightarrow>
                (case parallelLoop now sched (taskSignals tasks) states pending
                        (length tasks) 0 of
                   (out, None) \<Rightarrow> Inr \<lparr> emitted = out, runCalls = length tasks \<rparr>
                 | (out, Some err) \<Rightarrow> Inl (out, err))))"

subsection \<open>What a session is to look like\<close>

text \<open>
  The events a driver makes itself take their timestamp and their duration from the clock.
  \<open>untimed\<close> sets both to 0 in them and leaves the adapter's events as they are, and
  \<open>projection\<close> keeps what a driver yields for one task. \<open>sessionShape\<close> is the stream
  of one session as it follows from its generator alone: the adapter's events up to its
  first \<open>done\<close>, and, if it has none, the error and the \<open>done\<close> the driver adds for how
  the generator completes.
\<close>

definition untimed :: "Emitted \<Rightarrow> Emitted" where
  "untimed x =
     (if synthesized x
      then x\<lparr> ev := (ev x)\<lparr> timestamp := 0,
                            payload := (case payload (ev x) of
                                          DonePayload st res u d \<Rightarrow> DonePayload st res u 0
                                        | p \<Rightarrow> p) \<rparr> \<rparr>
      else x)"

definition projection :: "nat \<Rightarrow> Emitted list \<Rightarrow> Emitted list" where
  "projection j out = filter (\<lambda>x. task x = j) out"

definition synthErrorShape :: "nat \<Rightarrow> string \<Rightarrow> string \<Rightarrow> string \<Rightarrow> string \<Rightarrow> Emitted" where
  "synthErrorShape j ag code message sid =
     \<lparr> task = j, synthesized = True,
       ev = \<lparr> etype = ''error'', agent = ag, timestamp = 0, sessionId = sid, metadata = None,
              payload = ErrorPayload (Some code) message False \<rparr> \<rparr>"

definition synthDoneShape :: "nat \<Rightarrow> string \<Rightarrow> DoneStatus \<Rightarrow> string \<Rightarrow> Emitted" where
  "synthDoneShape j ag status sid =
     \<lparr> task = j, synthesized = True,
       ev = \<lparr> etype = ''done'', agent = ag, timestamp = 0, sessionId = sid, metadata = None,
              payload = DonePayload status None
                \<lparr> inputTokens = 0, outputTokens = 0, toolUses = 0, totalCostUsd = None \<rparr> 0 \<rparr> \<rparr>"

fun sessionShape ::
  "nat \<Rightarrow> string \<Rightarrow> string \<Rightarrow> AgentEvent list \<Rightarrow> Completion \<Rightarrow> Emitted list" where
  "sessionShape j ag sid [] Returns =
     [synthErrorShape j ag ''MISSING_DONE''
        ''Protocol violation: adapter completed without terminal event'' sid,
      synthDoneShape j ag StatusError sid]"
| "sessionShape j ag sid [] (Throws err) =
     (case errorText err of
        Inr msg \<Rightarrow>
          [synthErrorShape j ag ''ADAPTER_ERROR'' msg sid,
           synthDoneShape j ag StatusError sid]
      | Inl t \<Rightarrow> [])"
| "sessionShape j ag sid (e # es) fin =
     \<lparr> task = j, synthesized = False, ev = e \<rparr> #
     (if etype e = ''done'' then [] else sessionShape j ag (sessionId e) es fin)"

text \<open>
  \<open>cutSessionShape \<dots> xs\<close> says that \<open>xs\<close> is that session or the session cut short by a
  cancellation: some of the adapter's events, none of them a \<open>done\<close>, and then the
  \<open>done{interrupted}\<close> the driver makes, with the session id of the last of them.
\<close>

fun cutSessionShape ::
  "nat \<Rightarrow> string \<Rightarrow> string \<Rightarrow> AgentEvent list \<Rightarrow> Completion \<Rightarrow> Emitted list \<Rightarrow> bool" where
  "cutSessionShape j ag sid [] fin xs =
     (xs = [synthDoneShape j ag StatusInterrupted sid] \<or> xs = sessionShape j ag sid [] fin)"
| "cutSessionShape j ag sid (e # es) fin xs =
     (xs = [synthDoneShape j ag StatusInterrupted sid] \<or>
      (case xs of
         [] \<Rightarrow> False
       | x # xs' \<Rightarrow>
           x = \<lparr> task = j, synthesized = False, ev = e \<rparr> \<and>
           (if etype e = ''done'' then xs' = []
            else cutSessionShape j ag (sessionId e) es fin xs')))"

text \<open>What a driver has yielded, whether it then ends normally or with an exception.\<close>

definition yielded :: "(Emitted list \<times> thrown) + RunResult \<Rightarrow> Emitted list" where
  "yielded result = (case result of Inl (out, t) \<Rightarrow> out | Inr r \<Rightarrow> emitted r)"

subsection \<open>Session ids of the events a driver makes\<close>

text \<open>
  \<open>lastForwarded j xs\<close> is the last event of the adapter of task \<open>j\<close> that the driver
  passed on in \<open>xs\<close>. \<open>inheritsSessionIds\<close> says of a driver's output that every event the
  driver made itself carries the session id of the last event of its task's adapter passed on
  before it, and the provisional id of the task if there is none.
\<close>

definition lastForwarded :: "nat \<Rightarrow> Emitted list \<Rightarrow> AgentEvent option" where
  "lastForwarded j xs =
     (case filter (\<lambda>x. task x = j \<and> \<not> synthesized x) xs of
        [] \<Rightarrow> None
      | y # ys \<Rightarrow> Some (ev (last (y # ys))))"

definition inheritsSessionIds :: "(nat \<Rightarrow> string) \<Rightarrow> Emitted list \<Rightarrow> bool" where
  "inheritsSessionIds provisional out \<longleftrightarrow>
     (\<forall>p < length out.
        synthesized (out ! p) \<longrightarrow>
        sessionId (ev (out ! p)) =
          (case lastForwarded (task (out ! p)) (take p out) of
             None \<Rightarrow> provisional (task (out ! p))
           | Some e \<Rightarrow> sessionId e))"

subsection \<open>Mock adapters and sample values (engine.test.ts)\<close>

text \<open>
  The helpers of the engine's tests: \<open>createMockAdapter\<close> yields the given events and,
  with \<open>throwAfter = n\<close>, throws instead of yielding the event of index \<open>n\<close> (or at the
  end). The sample clock advances by one millisecond with every reading.
\<close>

definition textEvent :: "string \<Rightarrow> string \<Rightarrow> string \<Rightarrow> AgentEvent" where
  "textEvent ag content sid = createEvent 0 ''text'' ag (TextPayload content) sid"

definition doneEvent :: "string \<Rightarrow> DoneStatus \<Rightarrow> string \<Rightarrow> AgentEvent" where
  "doneEvent ag status sid =
     createEvent 0 ''done'' ag
       (DonePayload status None
          \<lparr> inputTokens = 10, outputTokens = 20, toolUses = 1, totalCostUsd = None \<rparr> 100) sid"

definition createMockAdapter :: "string \<Rightarrow> AgentEvent list \<Rightarrow> nat option \<Rightarrow> AgentAdapter" where
  "createMockAdapter ag evs throwAfter =
     \<lparr> adapterAgent = ag,
       run = (\<lambda>prompt opts.
                \<lparr> yields = (case throwAfter of None \<Rightarrow> evs | Some n \<Rightarrow> take n evs),
                  completion = (case throwAfter of None \<Rightarrow> Returns
                                | Some n \<Rightarrow> Throws (ErrorObj ''adapter exploded'')),
                  returnThrows = None \<rparr>) \<rparr>"

definition sampleClock :: "nat \<Rightarrow> int" where
  "sampleClock n = 1000 + int n"

definition sampleUuid :: "nat \<Rightarrow> string" where
  "sampleUuid n = ''uuid-'' @ replicate n (CHR ''x'')"

definition firstSettled :: "nat \<Rightarrow> nat" where
  "firstSettled k = 0"

definition noOptions :: AgentOptions where
  "noOptions =
     \<lparr> cwd = None, model = None, permissions = None, maxTurns = None, maxBudgetUsd = None,
       resume = None, abortSignal = None, allowedTools = None, disallowedTools = None \<rparr>"

definition preAbortedOptions :: AgentOptions where
  "preAbortedOptions = noOptions\<lparr> abortSignal := Some (Some 0) \<rparr>"

text \<open>
  An adapter whose generator yields the given events and then throws a value that
  \<open>String\<close> cannot convert: \<open>Object.create(null)\<close>, for which the conversion throws the
  \<open>TypeError\<close> below.
\<close>

definition unconvertibleAdapter :: "string \<Rightarrow> AgentEvent list \<Rightarrow> AgentAdapter" where
  "unconvertibleAdapter ag evs =
     \<lparr> adapterAgent = ag,
       run = (\<lambda>prompt opts.
                \<lparr> yields = evs,
                  completion =
                    Throws (NoString (ErrorObj ''Cannot convert object to primitive value'')),
                  returnThrows = None \<rparr>) \<rparr>"



text \<open>
  A scheduler for which the abort sentinel wins the race among three racers, and the first
  pending promise otherwise.
\<close>

definition abortWins :: "nat \<Rightarrow> nat" where
  "abortWins k = 2"

definition isolationTasks :: "ParallelTask list" where
  "isolationTasks =
     [\<lparr> taskAdapter = createMockAdapter ''claude-code''
                        [textEvent ''claude-code'' ''before-error'' ''sid-a''] (Some 1),
        taskPrompt = ''hi'', taskOptions = None \<rparr>,
      \<lparr> taskAdapter = createMockAdapter ''codex''
                        [textEvent ''codex'' ''ok'' ''sid-b'',
                         doneEvent ''codex'' StatusSuccess ''sid-b''] None,
        taskPrompt = ''hi'', taskOptions = None \<rparr>]"

definition unconvertibleTasks :: "ParallelTask list" where
  "unconvertibleTasks =
     [\<lparr> taskAdapter = unconvertibleAdapter ''claude-code''
                        [textEvent ''claude-code'' ''before-error'' ''sid-a''],
        taskPrompt = ''hi'', taskOptions = None \<rparr>,
      \<lparr> taskAdapter = createMockAdapter ''codex''
                        [textEvent ''codex'' ''ok'' ''sid-b'',
                         doneEvent ''codex'' StatusSuccess ''sid-b''] None,
        taskPrompt = ''hi'', taskOptions = None \<rparr>]"

section \<open>Gemini adapter (adapters/gemini.ts)\<close>

definition AGENT :: string where
  "AGENT = ''gemini''"

definition DEFAULT_DONE_USAGE :: Usage where
  "DEFAULT_DONE_USAGE =
     \<lparr> inputTokens = 0, outputTokens = 0, toolUses = 0, totalCostUsd = None \<rparr>"

text \<open>
  A value that may be \<open>undefined\<close> is a \<open>json option\<close>. \<open>getProp v k\<close> reads the property
  \<open>k\<close> of a value; the adapter reads no index and no \<open>length\<close>, so an array, like every
  value that is not an object, has none of the properties it asks for. \<open>a ?? b\<close> on
  values is \<open>coalesce\<close>, for which \<open>null\<close> counts as missing, and \<open>orElse\<close> on results
  that are a string or a number or \<open>undefined\<close>.
\<close>

definition getProp :: "json \<Rightarrow> string \<Rightarrow> json option" where
  "getProp v k = (case v of JObj kvs \<Rightarrow> map_of kvs k | _ \<Rightarrow> None)"

definition optProp :: "json option \<Rightarrow> string \<Rightarrow> json option" where
  "optProp v k = (case v of None \<Rightarrow> None | Some JNull \<Rightarrow> None | Some x \<Rightarrow> getProp x k)"

definition coalesce :: "json option \<Rightarrow> json option \<Rightarrow> json option" where
  "coalesce a b = (case a of None \<Rightarrow> b | Some JNull \<Rightarrow> b | Some x \<Rightarrow> Some x)"

definition orElse :: "'a option \<Rightarrow> 'a option \<Rightarrow> 'a option" where
  "orElse a b = (case a of Some x \<Rightarrow> Some x | None \<Rightarrow> b)"

definition orDefault :: "'a option \<Rightarrow> 'a \<Rightarrow> 'a" where
  "orDefault a d = (case a of Some x \<Rightarrow> x | None \<Rightarrow> d)"

text \<open>\<open>typeof value === 'object' && value !== null\<close>\<close>

definition isObject :: "json option \<Rightarrow> bool" where
  "isObject v = (case v of Some (JObj kvs) \<Rightarrow> True | Some (JArr xs) \<Rightarrow> True | _ \<Rightarrow> False)"

definition asString :: "json option \<Rightarrow> string option" where
  "asString v =
     (case v of Some (JStr s) \<Rightarrow> if length s > 0 then Some s else None | _ \<Rightarrow> None)"

definition asStringArray :: "json option \<Rightarrow> string list" where
  "asStringArray v =
     (case v of
        Some (JArr items) \<Rightarrow>
          concat (map (\<lambda>item.
                         case item of
                           JStr s \<Rightarrow> if length s > 0 then [s] else []
                         | _ \<Rightarrow> if isObject (Some item)
                                then (case asString (getProp item ''name'') of
                                        Some named \<Rightarrow> [named]
                                      | None \<Rightarrow> [])
                                else [])
                      items)
      | _ \<Rightarrow> [])"

definition asRecord :: "json option \<Rightarrow> json" where
  "asRecord v = (if isObject v then (case v of Some x \<Rightarrow> x | None \<Rightarrow> JObj []) else JObj [])"

definition asNumber :: "json option \<Rightarrow> rat option" where
  "asNumber v = (case v of Some (JNum (Finite r)) \<Rightarrow> Some r | _ \<Rightarrow> None)"

definition parseToolInput :: "(string \<Rightarrow> thrown + json) \<Rightarrow> json option \<Rightarrow> json" where
  "parseToolInput JSON_parse v =
     (case v of
        Some (JStr s) \<Rightarrow>
          (case JSON_parse s of
             Inr parsed \<Rightarrow> asRecord (Some parsed)
           | Inl err \<Rightarrow> JObj [(''raw'', JStr s)])
      | _ \<Rightarrow> asRecord v)"

text \<open>
  \<open>toLowerCase\<close>, for the code units a \<open>char\<close> can hold: the letters A to Z and the
  capital letters of Latin-1.
\<close>

definition toLowerChar :: "char \<Rightarrow> char" where
  "toLowerChar ch =
     (let n = (of_char ch :: nat)
      in if (65 \<le> n \<and> n \<le> 90) \<or> (192 \<le> n \<and> n \<le> 222 \<and> n \<noteq> 215)
         then char_of (n + 32) else ch)"

definition toLowerCase :: "string \<Rightarrow> string" where
  "toLowerCase s = map toLowerChar s"

definition mapDoneStatus :: "string option \<Rightarrow> DoneStatus" where
  "mapDoneStatus rawStatus =
     (case rawStatus of
        None \<Rightarrow> StatusSuccess
      | Some raw \<Rightarrow>
          if raw = [] then StatusSuccess
          else (let status = toLowerCase raw
                in if status = ''success'' \<or> status = ''completed'' \<or> status = ''ok''
                   then StatusSuccess
                   else if status = ''interrupted'' \<or> status = ''cancelled'' \<or>
                           status = ''aborted''
                   then StatusInterrupted
                   else if status = ''max_turns'' \<or> status = ''maxturns''
                   then StatusMaxTurns
                   else if status = ''max_budget'' \<or> status = ''maxbudget'' \<or>
                           status = ''budget_exceeded''
                   then StatusMaxBudget
                   else if status = ''error'' \<or> status = ''failed''
                   then StatusError
                   else StatusSuccess))"

definition mapUsage :: "json option \<Rightarrow> Usage" where
  "mapUsage rawUsage =
     (if \<not> isObject rawUsage then DEFAULT_DONE_USAGE
      else (let usage = asRecord rawUsage
            in \<lparr> inputTokens =
                   orDefault (orElse (asNumber (getProp usage ''inputTokens''))
                                     (asNumber (getProp usage ''input_tokens''))) 0,
                 outputTokens =
                   orDefault (orElse (asNumber (getProp usage ''outputTokens''))
                                     (asNumber (getProp usage ''output_tokens''))) 0,
                 toolUses =
                   orDefault (orElse (asNumber (getProp usage ''toolUses''))
                                     (asNumber (getProp usage ''tool_uses''))) 0,
                 totalCostUsd =
                   orElse (asNumber (getProp usage ''totalCostUsd''))
                          (asNumber (getProp usage ''total_cost_usd'')) \<rparr>))"

definition loadSessionId :: "json option \<Rightarrow> string option" where
  "loadSessionId message =
     (if \<not> isObject message then None
      else (let candidate = asRecord message
            in orElse (asString (getProp candidate ''sessionId''))
                 (orElse (asString (getProp candidate ''session_id''))
                    (orElse (asString (getProp candidate ''threadId''))
                       (orElse (asString (getProp candidate ''thread_id''))
                          (orElse (asString (optProp (getProp candidate ''session'') ''id''))
                                  (asString (optProp (getProp candidate ''thread'') ''id''))))))))"

definition toErrorPayload :: "json option \<Rightarrow> Payload" where
  "toErrorPayload message =
     (let top = asRecord message;
          nested = asRecord (getProp top ''error'');
          code = orElse (asString (getProp top ''code''))
                   (orElse (asString (getProp nested ''code'')) (asString (getProp nested ''type'')));
          text = orDefault
                   (orElse (asString (getProp top ''message'')) (asString (getProp nested ''message'')))
                   ''Gemini CLI error'';
          recoverable =
            (getProp top ''recoverable'' = Some (JBool True) \<or>
             getProp top ''retryable'' = Some (JBool True) \<or>
             getProp nested ''recoverable'' = Some (JBool True) \<or>
             getProp nested ''retryable'' = Some (JBool True))
      in ErrorPayload code text recoverable)"

record CloseResult =
  exitCode :: "int option"
  exitSignal :: "string option"

definition mapExitCodeToDoneStatus :: "CloseResult \<Rightarrow> bool \<Rightarrow> DoneStatus" where
  "mapExitCodeToDoneStatus close aborted =
     (if aborted \<or> exitSignal close = Some ''SIGTERM'' then StatusInterrupted
      else if exitCode close = Some 0 then StatusSuccess
      else if exitCode close = Some 53 then StatusMaxTurns
      else if exitCode close = Some 1 \<or> exitCode close = Some 42 then StatusError
      else StatusError)"

text \<open>
  A \<open>Set\<close> of strings is a list without duplicates in insertion order.
\<close>

definition setAdd :: "string list \<Rightarrow> string \<Rightarrow> string list" where
  "setAdd s x = (if x \<in> set s then s else s @ [x])"

definition setOf :: "string list \<Rightarrow> string list" where
  "setOf xs = foldl setAdd [] xs"

datatype GeminiCapability = CapFileWrite | CapShellExecute | CapNetworkAccess

definition CAPABILITY_TOOL_GROUPS :: "(GeminiCapability \<times> string list) list" where
  "CAPABILITY_TOOL_GROUPS =
     [(CapFileWrite, [''edit'']), (CapShellExecute, [''ShellTool'']),
      (CapNetworkAccess, [''webfetch''])]"

definition levelOf :: "RequiredPermissionPolicy \<Rightarrow> GeminiCapability \<Rightarrow> PermissionLevel" where
  "levelOf normalized capability =
     (case capability of
        CapFileWrite \<Rightarrow> reqFileWrite normalized
      | CapShellExecute \<Rightarrow> reqShellExecute normalized
      | CapNetworkAccess \<Rightarrow> reqNetworkAccess normalized)"

record GeminiToolConfig =
  configAllowedTools :: "string list"
  configDisallowedTools :: "string list"
  configArgs :: "string list"

fun joinWith :: "string \<Rightarrow> string list \<Rightarrow> string" where
  "joinWith sep [] = []"
| "joinWith sep [x] = x"
| "joinWith sep (x # y # ys) = x @ sep @ joinWith sep (y # ys)"

definition mapPermissionsToGeminiToolConfig ::
  "PermissionPolicy option \<Rightarrow> string list option \<Rightarrow> string list option \<Rightarrow> GeminiToolConfig" where
  "mapPermissionsToGeminiToolConfig policy optAllowed optDisallowed =
     (let normalized = normalizePermissions policy;
          allowed0 = setOf (orDefault optAllowed []);
          disallowed0 = setOf (orDefault optDisallowed []);
          (allowed1, disallowed1) =
            foldl (\<lambda>(allowed, disallowed) (capability, tools).
                     if levelOf normalized capability = Allow
                     then (foldl setAdd allowed tools, disallowed)
                     else if levelOf normalized capability = Deny
                     then (allowed, foldl setAdd disallowed tools)
                     else (allowed, disallowed))
                  (allowed0, disallowed0) CAPABILITY_TOOL_GROUPS;
          allowed2 = (if length allowed1 > 0
                      then filter (\<lambda>tool. tool \<notin> set disallowed1) allowed1
                      else allowed1);
          allowedTools' = sort allowed2;
          disallowedTools' = sort disallowed1
      in \<lparr> configAllowedTools = allowedTools',
           configDisallowedTools = disallowedTools',
           configArgs = (if length allowedTools' > 0
                         then [''--allowed-tools'', joinWith '','' allowedTools']
                         else []) \<rparr>)"

text \<open>\<open>buildInitPayload\<close>; \<open>processCwd\<close> is what \<open>process.cwd()\<close> returns.\<close>

definition buildInitPayload ::
  "string \<Rightarrow> json option \<Rightarrow> AgentOptions option \<Rightarrow> GeminiToolConfig \<Rightarrow> Payload" where
  "buildInitPayload processCwd sourceEvent opts toolConfig =
     (let sourceTools = asStringArray (optProp sourceEvent ''tools'');
          tools = (if length sourceTools > 0 then sourceTools
                   else if length (configAllowedTools toolConfig) > 0
                   then configAllowedTools toolConfig
                   else [])
      in InitPayload
           (orDefault (orElse (case opts of None \<Rightarrow> None | Some o' \<Rightarrow> model o')
                              (asString (optProp sourceEvent ''model''))) ''unknown'')
           (orDefault (orElse (case opts of None \<Rightarrow> None | Some o' \<Rightarrow> cwd o')
                              (asString (optProp sourceEvent ''cwd''))) processCwd)
           tools
           (Some [(''toolsKnown'',
                   JBool (length sourceTools > 0 \<or> length (configAllowedTools toolConfig) > 0)),
                  (''toolsSource'',
                   JStr (if length sourceTools > 0 then ''stream''
                         else if length (configAllowedTools toolConfig) > 0 then ''configured''
                         else ''unavailable'')),
                  (''disallowedTools'', JArr (map JStr (configDisallowedTools toolConfig)))]))"


text \<open>
  What one run of the adapter meets outside itself: whether creating the settings override
  or its cleanup fails, whether spawning fails, whether the child has a stdout stream, what
  that stream delivers, what stderr has delivered by the time the process closes, and how
  the process closes (the \<open>close\<close> event, or the \<open>error\<close> event that rejects the promise).
\<close>

record GeminiEnv =
  settingsOverrideError :: "thrown option"
  settingsCleanupError :: "thrown option"
  spawnError :: "thrown option"
  hasStdout :: bool
  stdoutStream :: readable
  stderrText :: string
  closeOutcome :: "thrown + CloseResult"
  workingDirectory :: string

text \<open>
  What stays fixed during a run, and the variables of \<open>run\<close>; \<open>clockReads\<close> and
  \<open>uuidCalls\<close> count the calls of \<open>Date.now()\<close> and \<open>generateSessionId()\<close> so far.
\<close>

record GeminiContext =
  ctxParse :: "string \<Rightarrow> thrown + json"
  ctxNow :: "nat \<Rightarrow> int"
  ctxUuid :: "nat \<Rightarrow> string"
  ctxCwd :: string
  ctxOptions :: "AgentOptions option"
  ctxToolConfig :: GeminiToolConfig
  ctxStartTime :: int
  ctxStderr :: string

record RunState =
  initYielded :: bool
  doneYielded :: bool
  currentSessionId :: string
  clockReads :: nat
  uuidCalls :: nat

text \<open>\<open>yield createEvent(type, AGENT, payload, sessionId)\<close>\<close>

definition yieldEvent ::
  "GeminiContext \<Rightarrow> RunState \<Rightarrow> string \<Rightarrow> Payload \<Rightarrow> AgentEvent list \<times> RunState" where
  "yieldEvent ctx st type pl =
     ([createEvent (ctxNow ctx (clockReads st)) type AGENT pl (currentSessionId st)],
      st\<lparr> clockReads := clockReads st + 1 \<rparr>)"

text \<open>The guarded \<open>init\<close>: \<open>if (!initYielded) { yield init; initYielded = true }\<close>\<close>

definition ensureInit ::
  "GeminiContext \<Rightarrow> json option \<Rightarrow> RunState \<Rightarrow> AgentEvent list \<times> RunState" where
  "ensureInit ctx sourceEvent st =
     (if \<not> initYielded st
      then (case yieldEvent ctx st ''init''
                   (buildInitPayload (ctxCwd ctx) sourceEvent (ctxOptions ctx)
                      (ctxToolConfig ctx)) of
              (out, st') \<Rightarrow> (out, st'\<lparr> initYielded := True \<rparr>))
      else ([], st))"

text \<open>A line that failed to parse.\<close>

definition handleFail ::
  "GeminiContext \<Rightarrow> RunState \<Rightarrow> string \<Rightarrow> string \<Rightarrow> AgentEvent list \<times> RunState" where
  "handleFail ctx st error raw =
     (case ensureInit ctx None st of
        (out1, st1) \<Rightarrow>
          if \<not> doneYielded st1
          then (case yieldEvent ctx st1 ''error''
                       (ErrorPayload (Some ''NDJSON_PARSE_ERROR'')
                          (''Failed to parse NDJSON line: '' @ error @ ''; raw: '' @ raw)
                          True) of
                  (out2, st2) \<Rightarrow> (out1 @ out2, st2))
          else (out1, st1))"

text \<open>
  The branches on the event type that follow the guarded \<open>init\<close> and the check of
  \<open>doneYielded\<close>.
\<close>

definition handleTyped ::
  "GeminiContext \<Rightarrow> RunState \<Rightarrow> string \<Rightarrow> json \<Rightarrow> AgentEvent list \<times> RunState" where
  "handleTyped ctx st eventType message =
     (if eventType = ''message''
      then (case orElse (asString (getProp message ''content''))
                   (orElse (asString (getProp message ''text''))
                           (asString (getProp message ''message''))) of
              Some content \<Rightarrow> yieldEvent ctx st ''text'' (TextPayload content)
            | None \<Rightarrow> ([], st))
      else if eventType = ''tool_use''
      then (let toolName = orDefault (orElse (asString (getProp message ''toolName''))
                                             (asString (getProp message ''name'')))
                             ''unknown_tool'';
                known = orElse (asString (getProp message ''toolUseId''))
                          (orElse (asString (getProp message ''id''))
                                  (asString (getProp message ''callId'')));
                toolUseId = orDefault known (ctxUuid ctx (uuidCalls st));
                st1 = (if known = None then st\<lparr> uuidCalls := uuidCalls st + 1 \<rparr> else st)
            in yieldEvent ctx st1 ''tool_use''
                 (ToolUsePayload toolName toolUseId
                    (parseToolInput (ctxParse ctx)
                       (coalesce (getProp message ''input'')
                          (coalesce (getProp message ''args'') (getProp message ''arguments''))))
                    None))
      else if eventType = ''tool_result''
      then (let statusText = map_option toLowerCase (asString (getProp message ''status''));
                status = (if statusText = Some ''denied'' then ToolDenied
                          else if getProp message ''isError'' = Some (JBool True) \<or>
                                  getProp message ''is_error'' = Some (JBool True) \<or>
                                  statusText = Some ''error''
                          then ToolError
                          else ToolSuccess);
                toolName = orDefault (orElse (asString (getProp message ''toolName''))
                                             (asString (getProp message ''name'')))
                             ''unknown_tool'';
                known = orElse (asString (getProp message ''toolUseId''))
                          (orElse (asString (getProp message ''id''))
                                  (asString (getProp message ''callId'')));
                toolUseId = orDefault known (ctxUuid ctx (uuidCalls st));
                st1 = (if known = None then st\<lparr> uuidCalls := uuidCalls st + 1 \<rparr> else st)
            in yieldEvent ctx st1 ''tool_result''
                 (ToolResultPayload toolUseId toolName status
                    (orDefault (coalesce (getProp message ''output'')
                                  (coalesce (getProp message ''result'')
                                            (getProp message ''content''))) JNull)
                    (orElse (asNumber (getProp message ''durationMs''))
                            (asNumber (getProp message ''duration_ms'')))))
      else if eventType = ''error''
      then yieldEvent ctx st ''error'' (toErrorPayload (Some message))
      else if eventType = ''result''
      then (let given = orElse (asNumber (getProp message ''durationMs''))
                               (asNumber (getProp message ''duration_ms''));
                duration = orDefault given
                             (of_int (ctxNow ctx (clockReads st) - ctxStartTime ctx));
                st1 = (if given = None then st\<lparr> clockReads := clockReads st + 1 \<rparr> else st)
            in (case yieldEvent ctx st1 ''done''
                       (DonePayload (mapDoneStatus (asString (getProp message ''status'')))
                          (asString (getProp message ''result''))
                          (mapUsage (getProp message ''usage''))
                          duration) of
                  (out, st2) \<Rightarrow> (out, st2\<lparr> doneYielded := True \<rparr>)))
      else ([], st))"

text \<open>A line that parsed.\<close>

definition handleOk ::
  "GeminiContext \<Rightarrow> RunState \<Rightarrow> json \<Rightarrow> AgentEvent list \<times> RunState" where
  "handleOk ctx st parsedData =
     (let message = asRecord (Some parsedData);
          st0 = st\<lparr> currentSessionId :=
                      orDefault (loadSessionId (Some parsedData)) (currentSessionId st) \<rparr>
      in (case asString (getProp message ''type'') of
            None \<Rightarrow> ([], st0)
          | Some eventType \<Rightarrow>
              if eventType = ''init'' then ensureInit ctx (Some message) st0
              else (case ensureInit ctx (Some message) st0 of
                      (out1, st1) \<Rightarrow>
                        if doneYielded st1 then (out1, st1)
                        else (case handleTyped ctx st1 eventType message of
                                (out2, st2) \<Rightarrow> (out1 @ out2, st2)))))"

definition handleParsed ::
  "GeminiContext \<Rightarrow> RunState \<Rightarrow> NDJSONParseResult \<Rightarrow> AgentEvent list \<times> RunState" where
  "handleParsed ctx st parsed =
     (case parsed of
        Fail error raw \<Rightarrow> handleFail ctx st error raw
      | Ok parsedData \<Rightarrow> handleOk ctx st parsedData)"

text \<open>The body of the \<open>for await\<close> loop over the parse results, one after the other.\<close>

fun consumeResults ::
  "GeminiContext \<Rightarrow> RunState \<Rightarrow> NDJSONParseResult list \<Rightarrow> AgentEvent list \<times> RunState" where
  "consumeResults ctx st [] = ([], st)"
| "consumeResults ctx st (parsed # rest) =
     (case handleParsed ctx st parsed of
        (out1, st1) \<Rightarrow>
          (case consumeResults ctx st1 rest of
             (out2, st2) \<Rightarrow> (out1 @ out2, st2)))"

text \<open>After the loop, once the process has closed.\<close>

definition afterClose ::
  "GeminiContext \<Rightarrow> RunState \<Rightarrow> CloseResult \<Rightarrow> bool \<Rightarrow> AgentEvent list" where
  "afterClose ctx st close abortRequested =
     (case ensureInit ctx None st of
        (out1, st1) \<Rightarrow>
          if \<not> doneYielded st1
          then (let status = mapExitCodeToDoneStatus close abortRequested
                in out1 @
                   [createEvent (ctxNow ctx (clockReads st1 + 1)) ''done'' AGENT
                      (DonePayload status
                         (if status = StatusError \<and> length (trim (ctxStderr ctx)) > 0
                          then Some (trim (ctxStderr ctx)) else None)
                         DEFAULT_DONE_USAGE
                         (of_int (ctxNow ctx (clockReads st1) - ctxStartTime ctx)))
                      (currentSessionId st1)])
          else out1)"

text \<open>The \<open>catch\<close> block.\<close>

definition catchBlock ::
  "GeminiContext \<Rightarrow> RunState \<Rightarrow> thrown \<Rightarrow> bool \<Rightarrow> AgentEvent list" where
  "catchBlock ctx st error aborted =
     (case ensureInit ctx None st of
        (out1, st1) \<Rightarrow>
          if \<not> doneYielded st1
          then (if aborted
                then out1 @
                     [createEvent (ctxNow ctx (clockReads st1 + 1)) ''done'' AGENT
                        (DonePayload StatusInterrupted None DEFAULT_DONE_USAGE
                           (of_int (ctxNow ctx (clockReads st1) - ctxStartTime ctx)))
                        (currentSessionId st1)]
                else out1 @
                     [createEvent (ctxNow ctx (clockReads st1)) ''error'' AGENT
                        (ErrorPayload (Some ''GEMINI_STREAM_ERROR'')
                           (case error of
                              ErrorObj m \<Rightarrow> m
                            | _ \<Rightarrow> ''Gemini adapter failed while reading stream'')
                           False)
                        (currentSessionId st1),
                      createEvent (ctxNow ctx (clockReads st1 + 2)) ''done'' AGENT
                        (DonePayload StatusError None DEFAULT_DONE_USAGE
                           (of_int (ctxNow ctx (clockReads st1 + 1) - ctxStartTime ctx)))
                        (currentSessionId st1)])
          else out1)"

text \<open>
  \<open>GeminiAdapter.run\<close>, drained by its consumer: the events it yields and the exception
  it ends with, if any (only the cleanup of the settings override, in \<open>finally\<close>, can raise
  one). The spawn arguments go to the process, which is part of the environment here. A
  step of the abort signal is one parse result handled: a failure before the loop reads the
  signal at step 0, the end of the run after as many steps as the stream gave results.
\<close>

definition GeminiAdapter_run ::
  "(string \<Rightarrow> thrown + json) \<Rightarrow> (byte list \<Rightarrow> string) \<Rightarrow> (nat \<Rightarrow> int) \<Rightarrow> (nat \<Rightarrow> string) \<Rightarrow>
   GeminiEnv \<Rightarrow> string \<Rightarrow> AgentOptions option \<Rightarrow> AgentEvent list \<times> thrown option" where
  "GeminiAdapter_run JSON_parse decodeBytes now uuid env prompt opts =
     (let resumeId = (case opts of None \<Rightarrow> None | Some o' \<Rightarrow> resume o');
          ctx = \<lparr> ctxParse = JSON_parse, ctxNow = now, ctxUuid = uuid,
                  ctxCwd = workingDirectory env, ctxOptions = opts,
                  ctxToolConfig =
                    mapPermissionsToGeminiToolConfig
                      (case opts of None \<Rightarrow> None | Some o' \<Rightarrow> permissions o')
                      (case opts of None \<Rightarrow> None | Some o' \<Rightarrow> allowedTools o')
                      (case opts of None \<Rightarrow> None | Some o' \<Rightarrow> disallowedTools o'),
                  ctxStartTime = now 0, ctxStderr = stderrText env \<rparr>;
          st0 = \<lparr> initYielded = False, doneYielded = False,
                  currentSessionId = orDefault resumeId (uuid 0),
                  clockReads = 1,
                  uuidCalls = (if resumeId = None then 1 else 0) \<rparr>;
          abortedEarly = abortedAt (signalOf opts) 0
      in (case settingsOverrideError env of
            Some err \<Rightarrow> (catchBlock ctx st0 err abortedEarly, None)
          | None \<Rightarrow>
              ((case spawnError env of
                  Some err \<Rightarrow> catchBlock ctx st0 err abortedEarly
                | None \<Rightarrow>
                    if \<not> hasStdout env
                    then catchBlock ctx st0
                           (ErrorObj ''Gemini CLI process does not expose stdout stream'')
                           abortedEarly
                    else (case parseNDJSON JSON_parse decodeBytes (stdoutStream env) of
                            (results, streamFailure) \<Rightarrow>
                              (let aborted = abortedAt (signalOf opts) (length results)
                               in case consumeResults ctx st0 results of
                                    (out, st1) \<Rightarrow>
                                      (case streamFailure of
                                         Some err \<Rightarrow> out @ catchBlock ctx st1 err aborted
                                       | None \<Rightarrow>
                                           (case closeOutcome env of
                                              Inl err \<Rightarrow> out @ catchBlock ctx st1 err aborted
                                            | Inr close \<Rightarrow>
                                                out @ afterClose ctx st1 close aborted))))),
               settingsCleanupError env)))"

subsection \<open>The \<open>init\<close> discipline of a run\<close>

definition isInit :: "AgentEvent \<Rightarrow> bool" where
  "isInit e = (etype e = ''init'')"

text \<open>
  What a piece of the run does to the \<open>init\<close> discipline: with \<open>initYielded\<close> set before
  it yields no \<open>init\<close>; with the flag clear it either yields nothing and leaves the flag
  clear, or yields \<open>init\<close> first and only once and sets the flag.
\<close>

definition initStep :: "bool \<Rightarrow> AgentEvent list \<Rightarrow> bool \<Rightarrow> bool" where
  "initStep before out after =
     (if before then after \<and> filter isInit out = []
      else if out = [] then \<not> after
      else after \<and> isInit (hd out) \<and> filter isInit (tl out) = [])"

subsection \<open>A sample run (after gemini-adapter.test.ts)\<close>

text \<open>
  A stand-in for \<open>JSON.parse\<close> on the lines of the sample stream, and an environment whose
  stdout delivers a message line, a line that does not parse and a result line, cut into two
  chunks inside the last line.
\<close>

definition sampleJsonParse :: "string \<Rightarrow> thrown + json" where
  "sampleJsonParse s =
     (if s = ''line-message''
      then Inr (JObj [(''type'', JStr ''message''), (''content'', JStr ''hi'')])
      else if s = ''line-result''
      then Inr (JObj [(''type'', JStr ''result''), (''status'', JStr ''success'')])
      else Inl (ErrorObj ''Unexpected token''))"

definition sampleGeminiEnv :: GeminiEnv where
  "sampleGeminiEnv =
     \<lparr> settingsOverrideError = None, settingsCleanupError = None, spawnError = None,
       hasStdout = True,
       stdoutStream =
         \<lparr> chunks = [StringChunk (''line-message'' @ [LF] @ ''oops'' @ [LF] @ ''line-''),
                     StringChunk (''result'' @ [LF])],
           streamError = None \<rparr>,
       stderrText = [],
       closeOutcome = Inr \<lparr> exitCode = Some 0, exitSignal = None \<rparr>,
       workingDirectory = ''/work'' \<rparr>"

section \<open>Theorems: NDJSON line framer\<close>

lemma splitLines_nonempty [simp]: "splitLines s \<noteq> []"
  by (induction s) (auto split: list.splits)


























section \<open>Theorems: Codex permission mapping\<close>

text \<open>
  C7, as stated, fails: the sandbox mode is decided by fileWrite and shellExecute alone.
  With fileWrite = allow, shellExecute = allow and networkAccess = deny one capability is
  \<open>deny\<close>, yet the sandbox mode is danger-full-access and not read-only.
\<close>

theorem codex_sandbox_any_deny_counterexample:
  "Deny \<in> set (capabilities (Some \<lparr> fileWrite = Some Allow, shellExecute = Some Allow,
                                     networkAccess = Some Deny \<rparr>)) \<and>
   sandboxMode (mapPermissionsToCodexOptions
     (Some \<lparr> fileWrite = Some Allow, shellExecute = Some Allow, networkAccess = Some Deny \<rparr>))
     = DangerFullAccess"
  by (simp add: capabilities_def mapPermissionsToCodexOptions_def normalizePermissions_def
      normalizePermissionLevel_def)

text \<open>
  C7 (amended): for every permission policy, absent capabilities read as \<open>ask\<close>,
  the sandbox mode is read-only whenever fileWrite or shellExecute is \<open>deny\<close>,
  danger-full-access when fileWrite and shellExecute are both \<open>allow\<close>, and
  workspace-write otherwise; the approval policy is never when all three capabilities are
  \<open>allow\<close>, untrusted when any capability is \<open>ask\<close>, and on-request otherwise;
  network access is enabled if and only if networkAccess is \<open>allow\<close>.
\<close>

theorem codex_permission_mapping:
  fixes policy :: "PermissionPolicy option"
  defines "fw \<equiv> reqFileWrite (normalizePermissions policy)"
  defines "sh \<equiv> reqShellExecute (normalizePermissions policy)"
  defines "net \<equiv> reqNetworkAccess (normalizePermissions policy)"
  defines "r \<equiv> mapPermissionsToCodexOptions policy"
  shows "capabilities policy = [fw, sh, net] \<and>
         (fw = Deny \<or> sh = Deny \<longrightarrow> sandboxMode r = ReadOnly) \<and>
         (fw = Allow \<and> sh = Allow \<longrightarrow> sandboxMode r = DangerFullAccess) \<and>
         (\<not> (fw = Deny \<or> sh = Deny) \<and> \<not> (fw = Allow \<and> sh = Allow) \<longrightarrow>
            sandboxMode r = WorkspaceWrite) \<and>
         ((\<forall>c \<in> set [fw, sh, net]. c = Allow) \<longrightarrow> approvalPolicy r = Never) \<and>
         (Ask \<in> set [fw, sh, net] \<longrightarrow> approvalPolicy r = Untrusted) \<and>
         (\<not> (\<forall>c \<in> set [fw, sh, net]. c = Allow) \<and> Ask \<notin> set [fw, sh, net] \<longrightarrow>
            approvalPolicy r = OnRequest) \<and>
         (networkAccessEnabled r \<longleftrightarrow> net = Allow)"
  by (auto simp add: fw_def sh_def net_def r_def capabilities_def
      mapPermissionsToCodexOptions_def Let_def)

theorem codex_permission_mapping_witness:
  "mapPermissionsToCodexOptions None =
     \<lparr> sandboxMode = WorkspaceWrite, approvalPolicy = Untrusted, networkAccessEnabled = False \<rparr> \<and>
   mapPermissionsToCodexOptions
     (Some \<lparr> fileWrite = Some Deny, shellExecute = None, networkAccess = Some Allow \<rparr>) =
     \<lparr> sandboxMode = ReadOnly, approvalPolicy = Untrusted, networkAccessEnabled = True \<rparr> \<and>
   mapPermissionsToCodexOptions
     (Some \<lparr> fileWrite = Some Allow, shellExecute = Some Allow, networkAccess = Some Allow \<rparr>) =
     \<lparr> sandboxMode = DangerFullAccess, approvalPolicy = Never, networkAccessEnabled = True \<rparr> \<and>
   mapPermissionsToCodexOptions
     (Some \<lparr> fileWrite = Some Allow, shellExecute = Some Deny, networkAccess = Some Deny \<rparr>) =
     \<lparr> sandboxMode = ReadOnly, approvalPolicy = OnRequest, networkAccessEnabled = False \<rparr>"
  using codex_permission_mapping [of None]
    codex_permission_mapping
      [of "Some \<lparr> fileWrite = Some Deny, shellExecute = None, networkAccess = Some Allow \<rparr>"]
    codex_permission_mapping
      [of "Some \<lparr> fileWrite = Some Allow, shellExecute = Some Allow, networkAccess = Some Allow \<rparr>"]
    codex_permission_mapping
      [of "Some \<lparr> fileWrite = Some Allow, shellExecute = Some Deny, networkAccess = Some Deny \<rparr>"]
  by (simp add: normalizePermissions_def normalizePermissionLevel_def)

section \<open>Theorems: single-session driver\<close>

lemma abortedAt_mono: "abortedAt signal j \<Longrightarrow> j \<le> k \<Longrightarrow> abortedAt signal k"
  by (auto simp: abortedAt_def split: option.splits)

lemma safeReturn_None [simp]: "safeReturn gen = None"
  by (simp add: safeReturn_def split: option.splits)

lemma runAgentFinally_None [simp]: "runAgentFinally d gen = None"
  by (simp add: runAgentFinally_def)

lemma firstThrown_None [simp]: "firstThrown None None = None"
  by (simp add: firstThrown_def)

text \<open>
  The loop of \<open>runAgent\<close> as a recursion over the events the generator has left: what it
  yields, and the exception it ends with.
\<close>

fun driven ::
  "(nat \<Rightarrow> int) \<Rightarrow> string \<Rightarrow> AbortSignal option \<Rightarrow> int \<Rightarrow> nat \<Rightarrow> nat \<Rightarrow> string \<Rightarrow>
   AgentEvent list \<Rightarrow> Completion \<Rightarrow> Emitted list" where
  "driven now ag signal startTime c k sid [] fin =
     (if abortedAt signal (k + 1)
      then [synth 0 (makeSynthDone now c ag StatusInterrupted sid startTime)]
      else (case fin of
              Returns \<Rightarrow>
                [synth 0 (makeSynthError now c ag ''MISSING_DONE''
                   ''Protocol violation: adapter completed without terminal event'' sid),
                 synth 0 (makeSynthDone now (c + 1) ag StatusError sid startTime)]
            | Throws err \<Rightarrow>
                (case errorText err of
                   Inr msg \<Rightarrow>
                     [synth 0 (makeSynthError now c ag ''ADAPTER_ERROR'' msg sid),
                      synth 0 (makeSynthDone now (c + 1) ag StatusError sid startTime)]
                 | Inl t \<Rightarrow> [])))"
| "driven now ag signal startTime c k sid (e # es) fin =
     (if abortedAt signal (k + 1)
      then [synth 0 (makeSynthDone now c ag StatusInterrupted sid startTime)]
      else forward 0 e #
           (if etype e = ''done'' then []
            else driven now ag signal startTime c (k + 1) (sessionId e) es fin))"

fun drivenThrown :: "AbortSignal option \<Rightarrow> nat \<Rightarrow> AgentEvent list \<Rightarrow> Completion \<Rightarrow> thrown option" where
  "drivenThrown signal k [] fin =
     (if abortedAt signal (k + 1) then None
      else (case fin of
              Returns \<Rightarrow> None
            | Throws err \<Rightarrow> (case errorText err of Inr msg \<Rightarrow> None | Inl t \<Rightarrow> Some t)))"
| "drivenThrown signal k (e # es) fin =
     (if abortedAt signal (k + 1) then None
      else if etype e = ''done'' then None
      else drivenThrown signal (k + 1) es fin)"

lemma runAgentLoop_driven:
  "runAgentLoop now ag signal startTime gen c k sid False =
     (driven now ag signal startTime c k sid (yields gen) (completion gen),
      drivenThrown signal k (yields gen) (completion gen))"
proof (induction "yields gen" arbitrary: gen k sid)
  case Nil
  then have y: "yields gen = []" by simp
  show ?case
  proof (cases "completion gen")
    case Returns
    then show ?thesis
      by (simp add: runAgentLoop.simps [of now ag signal startTime gen] genNext_def y
          raceAbort_def)
  next
    case (Throws err)
    then show ?thesis
      by (cases "errorText err")
        (simp_all add: runAgentLoop.simps [of now ag signal startTime gen] genNext_def y
          raceAbort_def)
  qed
next
  case (Cons e es)
  then have y: "yields gen = e # es" by simp
  have IH: "runAgentLoop now ag signal startTime (gen\<lparr>yields := es\<rparr>) c (Suc k) (sessionId e) False =
      (driven now ag signal startTime c (Suc k) (sessionId e) es (completion gen),
       drivenThrown signal (Suc k) es (completion gen))"
    using Cons.hyps(1) [of "gen\<lparr>yields := es\<rparr>" "Suc k" "sessionId e"] by simp
  show ?case
    by (simp add: runAgentLoop.simps [of now ag signal startTime gen] genNext_def y
        raceAbort_def IH)
qed

lemma runAgent_driven:
  "registry ag = Some adapter \<Longrightarrow>
   runAgent now uuid ag prompt opts registry =
     (if abortedAt (signalOf opts) 0
      then Inr \<lparr> emitted = [synth 0 (makeSynthDone now 1 ag StatusInterrupted (uuid 0) (now 0))],
                 runCalls = 0 \<rparr>
      else (case drivenThrown (signalOf opts) 0 (yields (run adapter prompt opts))
                   (completion (run adapter prompt opts)) of
              None \<Rightarrow>
                Inr \<lparr> emitted = driven now ag (signalOf opts) (now 0) 1 0 (uuid 0)
                                  (yields (run adapter prompt opts))
                                  (completion (run adapter prompt opts)),
                      runCalls = 1 \<rparr>
            | Some t \<Rightarrow>
                Inl (driven now ag (signalOf opts) (now 0) 1 0 (uuid 0)
                       (yields (run adapter prompt opts))
                       (completion (run adapter prompt opts)), t)))"
  by (simp add: runAgent_def runAgentLoop_driven Let_def split: option.splits)

text \<open>
  The loop ends with an exception only when the generator throws, before a \<open>done\<close> and
  not cancelled by then, a value that cannot be converted: the exception is the
  conversion's.
\<close>

lemma drivenThrown_Some:
  "drivenThrown signal k es fin = Some t \<Longrightarrow>
   \<exists>err. fin = Throws err \<and> errorText err = Inl t"
proof (induction es arbitrary: k)
  case Nil
  then show ?case
    by (auto split: if_splits Completion.splits sum.splits)
next
  case (Cons e es)
  then show ?case by (auto split: if_splits)
qed

lemma drivenThrown_convertible:
  "(\<And>err. fin = Throws err \<Longrightarrow> \<exists>msg. errorText err = Inr msg) \<Longrightarrow>
   drivenThrown signal k es fin = None"
proof (cases "drivenThrown signal k es fin")
  case None
  then show ?thesis .
next
  case (Some t)
  assume conv: "\<And>err. fin = Throws err \<Longrightarrow> \<exists>msg. errorText err = Inr msg"
  from drivenThrown_Some [OF Some] obtain err where "fin = Throws err" "errorText err = Inl t"
    by blast
  with conv [of err] show ?thesis by auto
qed

lemma drivenThrown_Returns [simp]: "drivenThrown signal k es Returns = None"
  by (rule drivenThrown_convertible) simp


lemma etype_synthDone [simp]: "etype (makeSynthDone now c ag st sid t) = ''done''"
  by (simp add: makeSynthDone_def createEvent_def)

lemma isDone_synthDone [simp]: "isDone (makeSynthDone now c ag st sid t)"
  by (simp add: isDone_def)

lemma etype_synthError [simp]: "etype (makeSynthError now c ag code msg sid) = ''error''"
  by (simp add: makeSynthError_def createEvent_def)

lemma ev_synth [simp]: "ev (synth i e) = e" "task (synth i e) = i" "synthesized (synth i e)"
  by (simp_all add: synth_def)

lemma ev_forward [simp]: "ev (forward i e) = e" "task (forward i e) = i" "\<not> synthesized (forward i e)"
  by (simp_all add: forward_def)

lemma driven_one_done:
  assumes "drivenThrown signal k es fin = None"
  shows "map ev (driven now ag signal startTime c k sid es fin) \<noteq> [] \<and>
         isDone (last (map ev (driven now ag signal startTime c k sid es fin))) \<and>
         length (filter isDone (map ev (driven now ag signal startTime c k sid es fin))) = 1"
  using assms
proof (induction es arbitrary: k sid)
  case Nil
  then show ?case
    by (auto simp: isDone_def split: if_splits Completion.splits sum.splits)
next
  case (Cons e es)
  show ?case
  proof (cases "abortedAt signal (k + 1) \<or> etype e = ''done''")
    case True
    then show ?thesis by (auto simp: isDone_def)
  next
    case False
    with Cons.prems have "drivenThrown signal (k + 1) es fin = None" by simp
    from Cons.IH [OF this, of "sessionId e"] False show ?thesis
      by (simp add: isDone_def)
  qed
qed

lemma driven_no_done_thrown:
  assumes "drivenThrown signal k es fin = Some t"
  shows "\<forall>x \<in> set (driven now ag signal startTime c k sid es fin).
           \<not> synthesized x \<and> \<not> isDone (ev x)"
  using assms
proof (induction es arbitrary: k sid)
  case Nil
  then show ?case
    by (auto split: if_splits Completion.splits sum.splits)
next
  case (Cons e es)
  from Cons.prems have na: "\<not> abortedAt signal (k + 1)" and nd: "etype e \<noteq> ''done''"
    and rest: "drivenThrown signal (k + 1) es fin = Some t"
    by (auto split: if_splits)
  from Cons.IH [OF rest, of "sessionId e"] na nd show ?case
    by (simp add: isDone_def)
qed

text \<open>
  Whenever what the generator throws, if it throws, is an \<open>Error\<close> or a value with a string
  conversion, \<open>runAgent\<close> ends without an exception, its stream holds exactly one event of
  type \<open>done\<close>, and that event is the last of the stream, whatever the events and whenever
  the cancellation token fires.
\<close>

lemma runAgent_one_done_if_convertible:
  assumes "registry ag = Some adapter" and "run adapter prompt opts = gen"
    and "\<And>err. completion gen = Throws err \<Longrightarrow> \<exists>msg. errorText err = Inr msg"
  shows "\<exists>r. runAgent now uuid ag prompt opts registry = Inr r \<and>
             length (filter isDone (events r)) = 1 \<and>
             events r \<noteq> [] \<and> isDone (last (events r))"
proof -
  have none: "drivenThrown (signalOf opts) 0 (yields gen) (completion gen) = None"
    by (rule drivenThrown_convertible) (rule assms(3))
  from driven_one_done [OF none, of now ag "now 0" 1 "uuid 0"] assms(1,2) none
  show ?thesis
    by (simp add: runAgent_driven events_def)
qed

text \<open>
  C1 (exactly one \<open>done\<close>, and nothing after it, for every behaviour of the adapter)
  fails on the code when the generator throws a value that \<open>String\<close> cannot convert (an
  object without \<open>toString\<close>, say): the conversion in the \<open>catch\<close> block throws, nothing
  catches that, and \<open>runAgent\<close> ends with the exception of the conversion instead of a
  \<open>done\<close>. Here the adapter yields one text event and then throws such a value; the stream
  is that event, with no \<open>done\<close>, and the caller gets the \<open>TypeError\<close>.
\<close>

theorem runAgent_unconvertible_throw_no_done:
  "runAgent sampleClock sampleUuid ''mock'' ''hi'' None
     [''mock'' \<mapsto> unconvertibleAdapter ''mock'' [textEvent ''mock'' ''partial'' ''sid-a'']] =
   Inl ([forward 0 (textEvent ''mock'' ''partial'' ''sid-a'')],
        ErrorObj ''Cannot convert object to primitive value'') \<and>
   filter isDone [textEvent ''mock'' ''partial'' ''sid-a''] = []"
  by (simp add: runAgent_driven unconvertibleAdapter_def signalOf_def abortedAt_def
      errorText_def textEvent_def createEvent_def isDone_def)

definition lastSessionIdOf :: "string \<Rightarrow> AgentEvent list \<Rightarrow> string" where
  "lastSessionIdOf sid es = (if es = [] then sid else sessionId (last es))"

lemma lastSessionIdOf_Cons: "lastSessionIdOf (sessionId e) es = lastSessionIdOf sid (e # es)"
  by (simp add: lastSessionIdOf_def)

lemma driven_no_done:
  assumes "\<forall>e \<in> set es. \<not> isDone e"
    and "\<not> abortedAt signal (k + length es + 1)"
  shows "driven now ag signal startTime c k sid es fin =
           map (forward 0) es @ driven now ag signal startTime c (k + length es)
             (lastSessionIdOf sid es) [] fin"
  using assms
proof (induction es arbitrary: k sid)
  case Nil
  show ?case by (simp add: lastSessionIdOf_def)
next
  case (Cons e es)
  from Cons.prems(2) have na: "\<not> abortedAt signal (k + 1)"
    by (auto dest: abortedAt_mono [where k = "k + length (e # es) + 1"])
  from Cons.prems have "driven now ag signal startTime c (k + 1) (sessionId e) es fin =
      map (forward 0) es @ driven now ag signal startTime c (k + 1 + length es)
        (lastSessionIdOf (sessionId e) es) [] fin"
    by (intro Cons.IH) simp_all
  with Cons.prems(1) na show ?case
    by (simp add: isDone_def lastSessionIdOf_Cons [of e es sid])
qed

lemma drivenThrown_no_done:
  assumes "\<forall>e \<in> set es. \<not> isDone e"
    and "\<not> abortedAt signal (k + length es + 1)"
  shows "drivenThrown signal k es fin = drivenThrown signal (k + length es) [] fin"
  using assms
proof (induction es arbitrary: k)
  case Nil
  show ?case by simp
next
  case (Cons e es)
  from Cons.prems(2) have na: "\<not> abortedAt signal (k + 1)"
    by (auto dest: abortedAt_mono [where k = "k + length (e # es) + 1"])
  from Cons.prems have "drivenThrown signal (k + 1) es fin =
      drivenThrown signal (k + 1 + length es) [] fin"
    by (intro Cons.IH) simp_all
  with Cons.prems(1) na show ?case
    by (simp add: isDone_def)
qed


text \<open>
  C3, as stated, fails on the message: the driver's text begins with a capital letter. An
  adapter that yields nothing and returns gives the error event below, whose message is
  not the one the claim quotes.
\<close>

theorem runAgent_missing_done_message_counterexample:
  "runAgent sampleClock sampleUuid ''mock'' ''hi'' None
     [''mock'' \<mapsto> createMockAdapter ''mock'' [] None] =
   Inr \<lparr> emitted =
           [synth 0 \<lparr> etype = ''error'', agent = ''mock'', timestamp = 1001,
                      sessionId = ''uuid-'', metadata = None,
                      payload = ErrorPayload (Some ''MISSING_DONE'')
                        ''Protocol violation: adapter completed without terminal event''
                        False \<rparr>,
            synth 0 \<lparr> etype = ''done'', agent = ''mock'', timestamp = 1003,
                      sessionId = ''uuid-'', metadata = None,
                      payload = DonePayload StatusError None
                        \<lparr> inputTokens = 0, outputTokens = 0, toolUses = 0,
                          totalCostUsd = None \<rparr> 2 \<rparr>],
         runCalls = 1 \<rparr> \<and>
   ''Protocol violation: adapter completed without terminal event'' \<noteq>
   ''protocol violation: adapter completed without terminal event''"
  by (simp add: runAgent_driven createMockAdapter_def signalOf_def abortedAt_def
      makeSynthError_def makeSynthDone_def createEvent_def zeroUsage_def sampleClock_def
      sampleUuid_def)

text \<open>
  C3 (amended): for every adapter whose generator yields the events \<open>e\<^sub>1, \<dots>, e\<^sub>k\<close>, none of
  type \<open>done\<close>, and then returns, with the cancellation token not fired by then,
  \<open>runAgent\<close> yields exactly \<open>e\<^sub>1, \<dots>, e\<^sub>k\<close>, then an error event with code
  \<open>MISSING_DONE\<close>, \<open>recoverable = false\<close> and the message "Protocol violation: adapter
  completed without terminal event", then a \<open>done\<close> event with status \<open>error\<close> and zeroed
  usage; both carry the session id of \<open>e\<^sub>k\<close> (the provisional one if \<open>k = 0\<close>).
\<close>

theorem runAgent_missing_done:
  assumes "registry ag = Some adapter"
    and "run adapter prompt opts = gen"
    and "completion gen = Returns"
    and "\<forall>e \<in> set (yields gen). \<not> isDone e"
    and "\<not> abortedAt (signalOf opts) (length (yields gen) + 1)"
  shows "runAgent now uuid ag prompt opts registry =
           Inr \<lparr> emitted = map (forward 0) (yields gen) @
                   [synth 0 \<lparr> etype = ''error'', agent = ag, timestamp = now 1,
                              sessionId = lastSessionIdOf (uuid 0) (yields gen),
                              metadata = None,
                              payload = ErrorPayload (Some ''MISSING_DONE'')
                                ''Protocol violation: adapter completed without terminal event''
                                False \<rparr>,
                    synth 0 \<lparr> etype = ''done'', agent = ag, timestamp = now 3,
                              sessionId = lastSessionIdOf (uuid 0) (yields gen),
                              metadata = None,
                              payload = DonePayload StatusError None
                                \<lparr> inputTokens = 0, outputTokens = 0, toolUses = 0,
                                  totalCostUsd = None \<rparr>
                                (of_int (now 2 - now 0)) \<rparr>],
                 runCalls = 1 \<rparr>"
proof -
  from assms(5) have n0: "\<not> abortedAt (signalOf opts) 0"
    and n1: "\<not> abortedAt (signalOf opts) (Suc (length (yields gen)))"
    by (auto dest: abortedAt_mono [where k = "length (yields gen) + 1"])
  have "driven now ag (signalOf opts) (now 0) 1 0 (uuid 0) (yields gen) Returns =
      map (forward 0) (yields gen) @
      driven now ag (signalOf opts) (now 0) 1 (0 + length (yields gen))
        (lastSessionIdOf (uuid 0) (yields gen)) [] Returns"
    using assms(4,5) by (intro driven_no_done) simp_all
  with assms(1,2,3) n0 n1 show ?thesis
    by (simp add: runAgent_driven makeSynthError_def makeSynthDone_def createEvent_def
        zeroUsage_def numeral_3_eq_3 numeral_2_eq_2)
qed

theorem runAgent_missing_done_witness:
  "runAgent sampleClock sampleUuid ''mock'' ''hi'' None
     [''mock'' \<mapsto> createMockAdapter ''mock'' [textEvent ''mock'' ''hi'' ''sid-a''] None] =
   Inr \<lparr> emitted =
           [forward 0 (textEvent ''mock'' ''hi'' ''sid-a''),
            synth 0 \<lparr> etype = ''error'', agent = ''mock'', timestamp = 1001,
                      sessionId = ''sid-a'', metadata = None,
                      payload = ErrorPayload (Some ''MISSING_DONE'')
                        ''Protocol violation: adapter completed without terminal event''
                        False \<rparr>,
            synth 0 \<lparr> etype = ''done'', agent = ''mock'', timestamp = 1003,
                      sessionId = ''sid-a'', metadata = None,
                      payload = DonePayload StatusError None
                        \<lparr> inputTokens = 0, outputTokens = 0, toolUses = 0,
                          totalCostUsd = None \<rparr> 2 \<rparr>],
         runCalls = 1 \<rparr>"
  using runAgent_missing_done
    [where registry = "[''mock'' \<mapsto> createMockAdapter ''mock''
                          [textEvent ''mock'' ''hi'' ''sid-a''] None]"
       and ag = "''mock''"
       and adapter = "createMockAdapter ''mock'' [textEvent ''mock'' ''hi'' ''sid-a''] None"
       and prompt = "''hi''" and opts = None
       and gen = "\<lparr> yields = [textEvent ''mock'' ''hi'' ''sid-a''], completion = Returns,
                     returnThrows = None \<rparr>"
       and now = sampleClock and uuid = sampleUuid]
  by (simp add: createMockAdapter_def isDone_def textEvent_def createEvent_def signalOf_def
      abortedAt_def lastSessionIdOf_def sampleClock_def)




section \<open>Theorems: parallel driver\<close>

text \<open>
  The loop keeps its state well formed: the pending promises are those of the tasks whose
  state is not \<open>null\<close>, one each, and no such task has yielded its \<open>done\<close>.
\<close>

definition wellFormed :: "AdapterState option list \<Rightarrow> (nat \<times> Settled) list \<Rightarrow> bool" where
  "wellFormed states pending \<longleftrightarrow>
     distinct (map fst pending) \<and>
     (\<forall>i. i \<in> fst ` set pending \<longleftrightarrow> stateAt states i \<noteq> None) \<and>
     (\<forall>i st. stateAt states i = Some st \<longrightarrow> \<not> stDoneYielded st)"

text \<open>
  One round of the loop from a well-formed state, for the promise that wins the race: what
  is yielded, the states, the pending promises and the count of clock readings after it,
  and the exception that ends the loop, if any.
\<close>

definition parStep ::
  "(nat \<Rightarrow> int) \<Rightarrow> AdapterState option list \<Rightarrow> (nat \<times> Settled) list \<Rightarrow> nat \<Rightarrow> nat \<times> Settled \<Rightarrow>
   Emitted list \<times> AdapterState option list \<times> (nat \<times> Settled) list \<times> nat \<times> thrown option" where
  "parStep now states pending c entry =
     (case entry of
        (index, raceResult) \<Rightarrow>
          (case stateAt states index of
             None \<Rightarrow> ([], states, pending, c, Some (ErrorObj ''TypeError''))
           | Some state \<Rightarrow>
               (case raceResult of
                  Rejected err \<Rightarrow>
                    (case errorText err of
                       Inl t \<Rightarrow> ([], states, pending, c, Some t)
                     | Inr msg \<Rightarrow>
                         ([synth index (makeSynthError now c (stAgent state) ''ADAPTER_ERROR''
                             msg (stSessionId state)),
                           synth index (makeSynthDone now (c + 1) (stAgent state) StatusError
                             (stSessionId state) (stStartTime state))],
                          states[index := None], pendingDelete index pending, c + 3, None))
                | Resolved IterDone \<Rightarrow>
                    ([synth index (makeSynthError now c (stAgent state) ''MISSING_DONE''
                        ''Protocol violation: adapter completed without terminal event''
                        (stSessionId state)),
                      synth index (makeSynthDone now (c + 1) (stAgent state) StatusError
                        (stSessionId state) (stStartTime state))],
                     states[index := None], pendingDelete index pending, c + 3, None)
                | Resolved (IterValue event) \<Rightarrow>
                    if etype event = ''done''
                    then ([forward index event], states[index := None],
                          pendingDelete index pending, c, None)
                    else (case scheduleNext
                                 (states[index := Some (state\<lparr> stSessionId := sessionId event \<rparr>)])
                                 (pendingDelete index pending) index of
                            (states', pending') \<Rightarrow>
                              ([forward index event], states', pending', c, None)))))"

lemma wellFormed_member:
  assumes "wellFormed states pending" and "(index, r) \<in> set pending"
  shows "\<exists>st. stateAt states index = Some st \<and> \<not> stDoneYielded st"
proof -
  from assms(2) have "index \<in> fst ` set pending" by force
  with assms(1) show ?thesis
    by (auto simp: wellFormed_def)
qed

lemma emit_simp [simp]: "emit xs (out, t) = (xs @ out, t)"
  by (simp add: emit_def)

lemma parallelLoop_Nil [simp]: "parallelLoop now sched signals states [] c k = ([], None)"
  by (simp add: parallelLoop.simps)

lemma parallelLoop_abort:
  "pending \<noteq> [] \<Longrightarrow>
   raceWinner (sched k) pending (list_ex (\<lambda>s. abortedAt (Some s) (k + 1)) signals) = None \<Longrightarrow>
   parallelLoop now sched signals states pending c k =
     (yieldInterruptedAndCleanup now c 0 states, None)"
  by (simp add: parallelLoop.simps)

lemma raceWinner_None:
  "raceWinner n pending fired = None \<Longrightarrow> fired"
  by (simp add: raceWinner_def split: if_splits)

lemma parallelLoop_step:
  assumes "wellFormed states pending" and "pending \<noteq> []"
    and "raceWinner (sched k) pending (list_ex (\<lambda>s. abortedAt (Some s) (k + 1)) signals) =
           Some entry"
    and "parStep now states pending c entry = (out, states', pending', c', stop)"
  shows "parallelLoop now sched signals states pending c k =
           (case stop of
              None \<Rightarrow> emit out (parallelLoop now sched signals states' pending' c' (k + 1))
            | Some t \<Rightarrow> ([], Some t))"
proof -
  obtain index r where entry: "entry = (index, r)"
    by (cases entry)
  from raceWinner_member [OF assms(2,3)] entry have "(index, r) \<in> set pending" by simp
  from wellFormed_member [OF assms(1) this]
  obtain st where st: "stateAt states index = Some st" "\<not> stDoneYielded st"
    by blast
  show ?thesis
  proof (cases r)
    case (Rejected err)
    with assms(2,3,4) entry st show ?thesis
      by (subst parallelLoop.simps) (cases "errorText err", auto simp add: parStep_def)
  next
    case (Resolved res)
    show ?thesis
    proof (cases res)
      case IterDone
      with Resolved assms(2,3,4) entry st show ?thesis
        by (subst parallelLoop.simps) (auto simp add: parStep_def)
    next
      case (IterValue event)
      with Resolved assms(2,3,4) entry st show ?thesis
        by (subst parallelLoop.simps) (auto simp add: parStep_def split: prod.splits)
    qed
  qed
qed

lemma keys_pendingDelete: "fst ` set (pendingDelete i p) = fst ` set p - {i}"
  by (force simp: pendingDelete_def)

lemma distinct_pendingDelete: "distinct (map fst p) \<Longrightarrow> distinct (map fst (pendingDelete i p))"
  by (simp add: pendingDelete_def distinct_map_filter)

lemma stateAt_update:
  "stateAt (states[i := x]) j = (if j = i \<and> i < length states then x else stateAt states j)"
  by (auto simp: stateAt_def)

lemma length_pendingDelete:
  "distinct (map fst p) \<Longrightarrow> (i, r) \<in> set p \<Longrightarrow> Suc (length (pendingDelete i p)) = length p"
proof (induction p)
  case Nil
  then show ?case by simp
next
  case (Cons a p)
  show ?case
  proof (cases "fst a = i")
    case True
    with Cons.prems have "i \<notin> fst ` set p" by auto
    then have "pendingDelete i p = p"
      by (force simp: pendingDelete_def filter_id_conv)
    with True show ?thesis by (cases a) (simp add: pendingDelete_def)
  next
    case False
    with Cons show ?thesis by (cases a) (auto simp: pendingDelete_def)
  qed
qed

lemma stateAt_Some_less: "stateAt states i = Some st \<Longrightarrow> i < length states"
  by (simp add: stateAt_def split: if_splits)

text \<open>The cases of a round that goes on, and the one of a round that ends in an exception.\<close>

lemma parStep_cases:
  assumes wf: "wellFormed states pending" and mem: "entry \<in> set pending"
    and step: "parStep now states pending c entry = (out, states', pending', c', None)"
  obtains
    (Rejected) index st err msg where
      "entry = (index, Rejected err)" "stateAt states index = Some st"
      "errorText err = Inr msg"
      "out = [synth index (makeSynthError now c (stAgent st) ''ADAPTER_ERROR''
                msg (stSessionId st)),
              synth index (makeSynthDone now (c + 1) (stAgent st) StatusError
                (stSessionId st) (stStartTime st))]"
      "states' = states[index := None]" "pending' = pendingDelete index pending" "c' = c + 3"
  | (Exhausted) index st where
      "entry = (index, Resolved IterDone)" "stateAt states index = Some st"
      "out = [synth index (makeSynthError now c (stAgent st) ''MISSING_DONE''
                ''Protocol violation: adapter completed without terminal event''
                (stSessionId st)),
              synth index (makeSynthDone now (c + 1) (stAgent st) StatusError
                (stSessionId st) (stStartTime st))]"
      "states' = states[index := None]" "pending' = pendingDelete index pending" "c' = c + 3"
  | (Done) index st e where
      "entry = (index, Resolved (IterValue e))" "stateAt states index = Some st"
      "etype e = ''done''" "out = [forward index e]"
      "states' = states[index := None]" "pending' = pendingDelete index pending" "c' = c"
  | (Event) index st e promise gen' where
      "entry = (index, Resolved (IterValue e))" "stateAt states index = Some st"
      "etype e \<noteq> ''done''" "out = [forward index e]"
      "genNext (stGen st) = (promise, gen')"
      "states' = states[index := Some (st\<lparr> stSessionId := sessionId e, stGen := gen' \<rparr>)]"
      "pending' = pendingDelete index pending @ [(index, promise)]" "c' = c"
proof -
  obtain index r where entry: "entry = (index, r)"
    by (cases entry)
  from wellFormed_member [OF wf mem [unfolded entry]]
  obtain st where st: "stateAt states index = Some st" "\<not> stDoneYielded st"
    by blast
  have lt: "index < length states"
    using st(1) by (rule stateAt_Some_less)
  show thesis
  proof (cases r)
    case (Rejected err)
    show thesis
    proof (cases "errorText err")
      case (Inl t)
      with Rejected step entry st show thesis
        by (simp add: parStep_def)
    next
      case (Inr msg)
      with Rejected step entry st show thesis
        by (intro that(1) [of index err st msg]) (simp_all add: parStep_def)
    qed
  next
    case (Resolved res)
    show thesis
    proof (cases res)
      case IterDone
      with Resolved step entry st show thesis
        by (intro that(2) [of index st]) (simp_all add: parStep_def)
    next
      case (IterValue e)
      show thesis
      proof (cases "etype e = ''done''")
        case True
        with IterValue Resolved step entry st show thesis
          by (intro that(3) [of index e st]) (simp_all add: parStep_def)
      next
        case False
        obtain promise gen' where gn: "genNext (stGen st) = (promise, gen')"
          by (cases "genNext (stGen st)")
        with False IterValue Resolved step entry st lt show thesis
          by (intro that(4) [of index e st promise gen'])
            (simp_all add: parStep_def scheduleNext_def stateAt_update pendingSet_fresh)
      qed
    qed
  qed
qed

lemma parStep_throws:
  assumes wf: "wellFormed states pending" and mem: "entry \<in> set pending"
    and step: "parStep now states pending c entry = (out, states', pending', c', Some t)"
  obtains index err where
    "entry = (index, Rejected err)" "errorText err = Inl t" "out = []"
proof -
  obtain index r where entry: "entry = (index, r)"
    by (cases entry)
  from wellFormed_member [OF wf mem [unfolded entry]]
  obtain st where st: "stateAt states index = Some st"
    by blast
  show thesis
  proof (cases r)
    case (Rejected err)
    with step entry st show thesis
      by (cases "errorText err") (auto simp: parStep_def intro: that [of index err])
  next
    case (Resolved res)
    with step entry st show thesis
      by (cases res) (auto simp: parStep_def split: if_splits prod.splits)
  qed
qed

lemma parStep_wellFormed:
  assumes wf: "wellFormed states pending" and mem: "entry \<in> set pending"
    and step: "parStep now states pending c entry = (out, states', pending', c', None)"
  shows "wellFormed states' pending'"
  using wf mem step
proof (cases rule: parStep_cases)
  case (Rejected index st err msg)
  with wf show ?thesis
    by (auto simp: wellFormed_def distinct_pendingDelete keys_pendingDelete stateAt_update
        dest: stateAt_Some_less)
next
  case (Exhausted index st)
  with wf show ?thesis
    by (auto simp: wellFormed_def distinct_pendingDelete keys_pendingDelete stateAt_update
        dest: stateAt_Some_less)
next
  case (Done index st e)
  with wf show ?thesis
    by (auto simp: wellFormed_def distinct_pendingDelete keys_pendingDelete stateAt_update
        dest: stateAt_Some_less)
next
  case (Event index st e promise gen')
  from wf Event(2) have ndy: "\<not> stDoneYielded st"
    by (auto simp: wellFormed_def)
  from Event(2) have lt: "index < length states"
    by (rule stateAt_Some_less)
  have d: "distinct (map fst pending')"
    using wf by (simp add: Event(7) wellFormed_def distinct_pendingDelete keys_pendingDelete)
  have k: "fst ` set pending' = fst ` set pending"
    using mem Event(1) by (auto simp: Event(7) keys_pendingDelete) force
  from wf ndy lt d k Event(2) show ?thesis
    by (auto simp: wellFormed_def Event(6) stateAt_update)
qed

lemma parStep_load:
  assumes wf: "wellFormed states pending" and mem: "entry \<in> set pending"
    and step: "parStep now states pending c entry = (out, states', pending', c', None)"
  shows "load states' pending' < load states pending"
  using wf mem step
proof (cases rule: parStep_cases)
  case (Rejected index st err msg)
  from load_delete_member [OF mem [unfolded Rejected(1)], of states]
    weight_pos [of states "(index, Rejected err)"]
  show ?thesis by (simp add: Rejected(5,6) load_delete_update)
next
  case (Exhausted index st)
  from load_delete_member [OF mem [unfolded Exhausted(1)], of states]
    weight_pos [of states "(index, Resolved IterDone)"]
  show ?thesis by (simp add: Exhausted(4,5) load_delete_update)
next
  case (Done index st e)
  from load_delete_member [OF mem [unfolded Done(1)], of states]
    weight_pos [of states "(index, Resolved (IterValue e))"]
  show ?thesis by (simp add: Done(5,6) load_delete_update)
next
  case (Event index st e promise gen')
  from Event(2) have lt: "index < length states"
    by (rule stateAt_Some_less)
  have w: "weight states' (index, promise) < weight states (index, Resolved (IterValue e))"
    using Event(5) Event(2) lt
    by (auto simp: Event(6) weight_def stateAt_def genNext_def
        split: list.splits Completion.splits Settled.splits IteratorResult.splits)
  have "load states' pending' =
      load states (pendingDelete index pending) + weight states' (index, promise)"
    unfolding Event(6,7) using load_delete_update [of states index _ pending]
    by (simp add: load_def)
  with w load_delete_member [OF mem [unfolded Event(1)], of states] show ?thesis by simp
qed

text \<open>
  Induction over the rounds of the loop from a well-formed state: the loop ends with no
  promise pending, with the abort sentinel winning a race, or with the exception of a
  conversion, and any other round yields what \<open>parStep\<close> gives and goes on.
\<close>

lemma parallelLoop_rounds [consumes 1, case_names Empty Abort Throw Round]:
  assumes wf: "wellFormed states pending"
    and empty: "\<And>states c k. P states [] c k ([], None)"
    and abort: "\<And>states pending c k.
        wellFormed states pending \<Longrightarrow> pending \<noteq> [] \<Longrightarrow>
        list_ex (\<lambda>s. abortedAt (Some s) (k + 1)) signals \<Longrightarrow>
        P states pending c k (yieldInterruptedAndCleanup now c 0 states, None)"
    and throw: "\<And>states pending c k index err t.
        wellFormed states pending \<Longrightarrow> (index, Rejected err) \<in> set pending \<Longrightarrow>
        errorText err = Inl t \<Longrightarrow> P states pending c k ([], Some t)"
    and round: "\<And>states pending c k entry out states' pending' c' out2 t2.
        wellFormed states pending \<Longrightarrow> entry \<in> set pending \<Longrightarrow>
        parStep now states pending c entry = (out, states', pending', c', None) \<Longrightarrow>
        wellFormed states' pending' \<Longrightarrow>
        P states' pending' c' (k + 1) (out2, t2) \<Longrightarrow>
        P states pending c k (out @ out2, t2)"
  shows "P states pending c k (parallelLoop now sched signals states pending c k)"
  using wf
proof (induction "load states pending" arbitrary: states pending c k rule: less_induct)
  case less
  let ?fired = "list_ex (\<lambda>s. abortedAt (Some s) (k + 1)) signals"
  show ?case
  proof (cases "pending = []")
    case True
    then show ?thesis by (simp add: empty)
  next
    case ne: False
    show ?thesis
    proof (cases "raceWinner (sched k) pending ?fired")
      case None
      from abort [OF less.prems ne raceWinner_None [OF None], of c]
        parallelLoop_abort [where sched = sched and k = k, OF ne None]
      show ?thesis by simp
    next
      case (Some entry)
      from raceWinner_member [OF ne Some] have mem: "entry \<in> set pending" .
      obtain out1 states' pending' c' stop where
        step: "parStep now states pending c entry = (out1, states', pending', c', stop)"
        by (cases "parStep now states pending c entry") auto
      note loop = parallelLoop_step [where sched = sched and k = k, OF less.prems ne Some step]
      show ?thesis
      proof (cases stop)
        case (Some t)
        from parStep_throws [OF less.prems mem step [unfolded Some]]
        obtain index err where e: "entry = (index, Rejected err)" "errorText err = Inl t"
          by blast
        from throw [OF less.prems mem [unfolded e(1)] e(2), of c k] loop Some
        show ?thesis by simp
      next
        case None
        note step' = step [unfolded None]
        from parStep_wellFormed [OF less.prems mem step']
        have wf': "wellFormed states' pending'" .
        obtain out2 t2 where
          rest: "parallelLoop now sched signals states' pending' c' (k + 1) = (out2, t2)"
          by (cases "parallelLoop now sched signals states' pending' c' (k + 1)")
        from less.hyps [OF parStep_load [OF less.prems mem step'] wf', of c' "k + 1"] rest
        have "P states' pending' c' (k + 1) (out2, t2)" by simp
        from round [OF less.prems mem step' wf' this] loop None rest
        show ?thesis by simp
      qed
    qed
  qed
qed


lemma preAbortedDones_count:
  "length (filter (\<lambda>x. isDone (ev x)) (preAbortedDones now uuid i ts)) = length ts"
  by (induction ts arbitrary: i) simp_all

subsection \<open>Session ids\<close>

fun sidsOk :: "(nat \<Rightarrow> string) \<Rightarrow> Emitted list \<Rightarrow> bool" where
  "sidsOk cur [] = True"
| "sidsOk cur (x # xs) =
     (if synthesized x then sessionId (ev x) = cur (task x) \<and> sidsOk cur xs
      else sidsOk (cur(task x := sessionId (ev x))) xs)"

fun curAfter :: "(nat \<Rightarrow> string) \<Rightarrow> Emitted list \<Rightarrow> nat \<Rightarrow> string" where
  "curAfter cur [] = cur"
| "curAfter cur (x # xs) =
     curAfter (if synthesized x then cur else cur(task x := sessionId (ev x))) xs"

lemma sidsOk_append: "sidsOk cur (xs @ ys) \<longleftrightarrow> sidsOk cur xs \<and> sidsOk (curAfter cur xs) ys"
  by (induction xs arbitrary: cur) auto

lemma lastForwarded_Nil [simp]: "lastForwarded j [] = None"
  by (simp add: lastForwarded_def)

lemma lastForwarded_Cons:
  "(case lastForwarded j (x # ys) of None \<Rightarrow> cur j | Some e \<Rightarrow> sessionId e) =
   (case lastForwarded j ys of
      None \<Rightarrow> (if synthesized x then cur else cur(task x := sessionId (ev x))) j
    | Some e \<Rightarrow> sessionId e)"
  by (cases "filter (\<lambda>x. task x = j \<and> \<not> synthesized x) ys")
    (auto simp: lastForwarded_def)

lemma sidsOk_inherits: "sidsOk cur out \<Longrightarrow> inheritsSessionIds cur out"
proof (induction out arbitrary: cur)
  case Nil
  show ?case by (simp add: inheritsSessionIds_def)
next
  case (Cons x xs)
  let ?cur' = "if synthesized x then cur else cur(task x := sessionId (ev x))"
  from Cons.prems have ok: "sidsOk ?cur' xs"
    by (simp split: if_splits)
  from Cons.IH [OF ok] have IH: "inheritsSessionIds ?cur' xs" .
  show ?case
    unfolding inheritsSessionIds_def
  proof (intro allI impI)
    fix p
    assume p: "p < length (x # xs)" and s: "synthesized ((x # xs) ! p)"
    show "sessionId (ev ((x # xs) ! p)) =
        (case lastForwarded (task ((x # xs) ! p)) (take p (x # xs)) of
           None \<Rightarrow> cur (task ((x # xs) ! p))
         | Some e \<Rightarrow> sessionId e)"
    proof (cases p)
      case 0
      with s Cons.prems show ?thesis by simp
    next
      case (Suc q)
      with p s have q: "q < length xs" "synthesized (xs ! q)" by simp_all
      with IH have "sessionId (ev (xs ! q)) =
          (case lastForwarded (task (xs ! q)) (take q xs) of
             None \<Rightarrow> ?cur' (task (xs ! q))
           | Some e \<Rightarrow> sessionId e)"
        unfolding inheritsSessionIds_def by blast
      then show ?thesis
        unfolding Suc by (simp only: nth_Cons_Suc take_Suc_Cons lastForwarded_Cons)
    qed
  qed
qed

lemma driven_sidsOk: "cur 0 = sid \<Longrightarrow> sidsOk cur (driven now ag signal startTime c k sid es fin)"
proof (induction es arbitrary: cur k sid)
  case Nil
  then show ?case
    by (auto simp: makeSynthDone_def makeSynthError_def createEvent_def
        split: Completion.splits sum.splits)
next
  case (Cons e es)
  have "sidsOk (cur(0 := sessionId e)) (driven now ag signal startTime c (k + 1) (sessionId e) es fin)"
    by (rule Cons.IH) simp
  with Cons.prems show ?case
    by (simp add: makeSynthDone_def createEvent_def)
qed

definition curMatches :: "(nat \<Rightarrow> string) \<Rightarrow> AdapterState option list \<Rightarrow> bool" where
  "curMatches cur states \<longleftrightarrow> (\<forall>j st. stateAt states j = Some st \<longrightarrow> cur j = stSessionId st)"

lemma yieldInterrupted_sidsOk:
  "(\<And>j st. j < length states \<Longrightarrow> states ! j = Some st \<Longrightarrow> cur (i + j) = stSessionId st) \<Longrightarrow>
   sidsOk cur (yieldInterruptedAndCleanup now c i states)"
proof (induction states arbitrary: i c)
  case Nil
  show ?case by simp
next
  case (Cons s states)
  have rest: "sidsOk cur (yieldInterruptedAndCleanup now c' (i + 1) states)" for c'
  proof (rule Cons.IH)
    fix j st
    assume "j < length states" "states ! j = Some st"
    with Cons.prems [of "Suc j" st] show "cur (i + 1 + j) = stSessionId st" by simp
  qed
  show ?case
  proof (cases s)
    case None
    with rest show ?thesis by simp
  next
    case (Some st)
    with Cons.prems [of 0 st] rest show ?thesis
      by (simp add: makeSynthDone_def createEvent_def)
  qed
qed

lemma parStep_sids:
  assumes wf: "wellFormed states pending" and mem: "entry \<in> set pending"
    and step: "parStep now states pending c entry = (out, states', pending', c', None)"
    and cm: "curMatches cur states"
  shows "sidsOk cur out \<and> curMatches (curAfter cur out) states'"
  using wf mem step
proof (cases rule: parStep_cases)
  case (Rejected index st err msg)
  with cm show ?thesis
    by (auto simp: curMatches_def stateAt_update makeSynthDone_def makeSynthError_def
        createEvent_def split: if_splits)
next
  case (Exhausted index st)
  with cm show ?thesis
    by (auto simp: curMatches_def stateAt_update makeSynthDone_def makeSynthError_def
        createEvent_def split: if_splits)
next
  case (Done index st e)
  with cm show ?thesis
    by (auto simp: curMatches_def stateAt_update dest: stateAt_Some_less split: if_splits)
next
  case (Event index st e promise gen')
  with cm show ?thesis
    by (auto simp: curMatches_def stateAt_update dest: stateAt_Some_less split: if_splits)
qed

lemma parallelLoop_sidsOk:
  assumes wf: "wellFormed states pending" and cm: "curMatches cur states"
  shows "sidsOk cur (fst (parallelLoop now sched signals states pending c k))"
proof -
  have "\<forall>cur. curMatches cur states \<longrightarrow>
          sidsOk cur (fst (parallelLoop now sched signals states pending c k))"
    using wf
  proof (induction rule: parallelLoop_rounds
      [where P = "\<lambda>states pending c k r. \<forall>cur. curMatches cur states \<longrightarrow> sidsOk cur (fst r)"
         and now = now and signals = signals])
    case (Empty states c k)
    show ?case by simp
  next
    case (Abort states pending c k)
    show ?case
    proof (intro allI impI)
      fix cur
      assume "curMatches cur states"
      then have "sidsOk cur (yieldInterruptedAndCleanup now c 0 states)"
        by (intro yieldInterrupted_sidsOk) (simp add: curMatches_def stateAt_def)
      then show "sidsOk cur (fst (yieldInterruptedAndCleanup now c 0 states, None :: thrown option))"
        by simp
    qed
  next
    case (Throw states pending c k index err t)
    show ?case by simp
  next
    case (Round states pending c k entry out states' pending' c' out2 t2)
    show ?case
    proof (intro allI impI)
      fix cur
      assume cm: "curMatches cur states"
      from parStep_sids [OF Round(1,2,3) cm]
      have s1: "sidsOk cur out" and cm': "curMatches (curAfter cur out) states'"
        by simp_all
      from Round(5) cm' have "sidsOk (curAfter cur out) out2" by simp
      with s1 show "sidsOk cur (fst (out @ out2, t2))"
        by (simp add: sidsOk_append)
    qed
  qed
  with cm show ?thesis by blast
qed

definition initialState ::
  "(nat \<Rightarrow> int) \<Rightarrow> (nat \<Rightarrow> string) \<Rightarrow> ParallelTask list \<Rightarrow> nat \<Rightarrow> AdapterState" where
  "initialState now uuid tasks i =
     \<lparr> stGen = run (taskAdapter (tasks ! i)) (taskPrompt (tasks ! i)) (taskOptions (tasks ! i)),
       stAgent = adapterAgent (taskAdapter (tasks ! i)),
       stStartTime = now i,
       stSessionId = uuid i,
       stDoneYielded = False \<rparr>"

lemma initialStates_nth:
  "i < length tasks \<Longrightarrow> initialStates now uuid tasks ! i = Some (initialState now uuid tasks i)"
  by (simp add: initialStates_def initialState_def nth_enumerate_eq)

lemma length_initialStates [simp]: "length (initialStates now uuid tasks) = length tasks"
  by (simp add: initialStates_def)

lemma scheduleAll_fold:
  assumes "\<forall>i < length S0. S0 ! i = Some (s i)" and "m \<le> length S0"
  shows "\<exists>st. fold (\<lambda>i (st, pending). scheduleNext st pending i) [0..<m] (S0, []) =
           (st, map (\<lambda>i. (i, fst (genNext (stGen (s i))))) [0..<m]) \<and>
           length st = length S0 \<and>
           (\<forall>i < length S0. st ! i =
              (if i < m then Some ((s i)\<lparr> stGen := snd (genNext (stGen (s i))) \<rparr>)
               else Some (s i)))"
  using assms(2)
proof (induction m)
  case 0
  with assms(1) show ?case by simp
next
  case (Suc m)
  then obtain st where
    f: "fold (\<lambda>i (st, pending). scheduleNext st pending i) [0..<m] (S0, []) =
          (st, map (\<lambda>i. (i, fst (genNext (stGen (s i))))) [0..<m])"
    and l: "length st = length S0"
    and n: "\<forall>i < length S0. st ! i =
              (if i < m then Some ((s i)\<lparr> stGen := snd (genNext (stGen (s i))) \<rparr>)
               else Some (s i))"
    by auto
  from Suc.prems have m: "m < length S0" by simp
  with n l have at: "stateAt st m = Some (s m)"
    by (simp add: stateAt_def)
  have fresh: "m \<notin> fst ` set (map (\<lambda>i. (i, fst (genNext (stGen (s i))))) [0..<m])"
    by auto
  have sn: "scheduleNext st (map (\<lambda>i. (i, fst (genNext (stGen (s i))))) [0..<m]) m =
      (st[m := Some ((s m)\<lparr> stGen := snd (genNext (stGen (s m))) \<rparr>)],
       map (\<lambda>i. (i, fst (genNext (stGen (s i))))) [0..<Suc m])"
    using at fresh
    by (simp add: scheduleNext_def pendingSet_def split: prod.splits)
  have "fold (\<lambda>i (st, pending). scheduleNext st pending i) [0..<Suc m] (S0, []) =
      (st[m := Some ((s m)\<lparr> stGen := snd (genNext (stGen (s m))) \<rparr>)],
       map (\<lambda>i. (i, fst (genNext (stGen (s i))))) [0..<Suc m])"
    unfolding upt_Suc_append [OF le0] fold_append comp_def f using sn by simp
  with l n m show ?case
    by (intro exI [of _ "st[m := Some ((s m)\<lparr> stGen := snd (genNext (stGen (s m))) \<rparr>)]"])
      (auto simp: nth_list_update simp del: upt_Suc)
qed

lemma scheduleAll_initial:
  obtains states pending where
    "scheduleAll (initialStates now uuid tasks) = (states, pending)"
    "pending = map (\<lambda>i. (i, fst (genNext (stGen (initialState now uuid tasks i)))))
                 [0..<length tasks]"
    "length states = length tasks"
    "\<And>i. i < length tasks \<Longrightarrow>
       states ! i = Some ((initialState now uuid tasks i)
         \<lparr> stGen := snd (genNext (stGen (initialState now uuid tasks i))) \<rparr>)"
proof -
  from scheduleAll_fold [of "initialStates now uuid tasks" "initialState now uuid tasks"
      "length tasks"]
  obtain st where
    "fold (\<lambda>i (st, pending). scheduleNext st pending i) [0..<length tasks]
       (initialStates now uuid tasks, []) =
     (st, map (\<lambda>i. (i, fst (genNext (stGen (initialState now uuid tasks i)))))
            [0..<length tasks])"
    "length st = length tasks"
    "\<forall>i < length tasks. st ! i =
       Some ((initialState now uuid tasks i)
         \<lparr> stGen := snd (genNext (stGen (initialState now uuid tasks i))) \<rparr>)"
    by (auto simp: initialStates_nth)
  then show thesis
    by (intro that [of st]) (simp_all add: scheduleAll_def)
qed

lemma wellFormed_initial:
  assumes "scheduleAll (initialStates now uuid tasks) = (states, pending)"
  shows "wellFormed states pending \<and> length pending = length tasks"
proof (rule scheduleAll_initial [of now uuid tasks])
  fix states0 pending0
  assume i: "scheduleAll (initialStates now uuid tasks) = (states0, pending0)"
    "pending0 = map (\<lambda>i. (i, fst (genNext (stGen (initialState now uuid tasks i)))))
                 [0..<length tasks]"
    "length states0 = length tasks"
    "\<And>i. i < length tasks \<Longrightarrow>
       states0 ! i = Some ((initialState now uuid tasks i)
         \<lparr> stGen := snd (genNext (stGen (initialState now uuid tasks i))) \<rparr>)"
  with assms have eq: "states = states0" "pending = pending0" by simp_all
  have keys: "map fst pending = [0..<length tasks]"
    unfolding eq i(2) by (simp add: comp_def)
  have len: "length pending = length tasks"
    unfolding eq i(2) by simp
  have "fst ` set pending = {0..<length tasks}"
    using keys by (metis set_map set_upt)
  moreover have "distinct (map fst pending)"
    by (simp add: keys)
  moreover have "stateAt states j \<noteq> None \<longleftrightarrow> j < length tasks" for j
    using i(3,4) by (auto simp: eq stateAt_def)
  moreover have "\<not> stDoneYielded st" if "stateAt states j = Some st" for j st
    using that i(3) i(4) [of j] by (auto simp: eq stateAt_def initialState_def split: if_splits)
  ultimately have "wellFormed states pending"
    unfolding wellFormed_def by auto
  with len show ?thesis by simp
qed

lemma preAbortedDones_sidsOk: "sidsOk uuid (preAbortedDones now uuid i ts)"
  by (induction ts arbitrary: i) (simp_all add: makeSynthDone_def createEvent_def)

lemma curMatches_initial:
  assumes sa: "scheduleAll (initialStates now uuid tasks) = (states, pending)"
  shows "curMatches uuid states"
proof (rule scheduleAll_initial [of now uuid tasks])
  fix states0 pending0
  assume i: "scheduleAll (initialStates now uuid tasks) = (states0, pending0)"
    "pending0 = map (\<lambda>i. (i, fst (genNext (stGen (initialState now uuid tasks i)))))
                 [0..<length tasks]"
    "length states0 = length tasks"
    "\<And>i. i < length tasks \<Longrightarrow>
       states0 ! i = Some ((initialState now uuid tasks i)
         \<lparr> stGen := snd (genNext (stGen (initialState now uuid tasks i))) \<rparr>)"
  with sa have eq: "states = states0" by simp
  show ?thesis
    unfolding curMatches_def
  proof (intro allI impI)
    fix j st
    assume "stateAt states j = Some st"
    with i(3) i(4) [of j] show "uuid j = stSessionId st"
      by (auto simp: eq stateAt_def initialState_def split: if_splits)
  qed
qed


subsection \<open>Sessions\<close>

text \<open>
  What is left of a session: the promise that is pending for it, put back in front of
  what its generator still holds.
\<close>


definition unpull :: "Settled \<Rightarrow> Generator \<Rightarrow> AgentEvent list \<times> Completion" where
  "unpull promise g =
     (case promise of
        Resolved (IterValue e) \<Rightarrow> (e # yields g, completion g)
      | Resolved IterDone \<Rightarrow> ([], Returns)
      | Rejected err \<Rightarrow> ([], Throws err))"

definition restShape ::
  "nat \<Rightarrow> AdapterState option list \<Rightarrow> (nat \<times> Settled) list \<Rightarrow> Emitted list" where
  "restShape j states pending =
     (case map_of pending j of
        None \<Rightarrow> []
      | Some promise \<Rightarrow>
          (case stateAt states j of
             None \<Rightarrow> []
           | Some st \<Rightarrow>
               (case unpull promise (stGen st) of
                  (es, fin) \<Rightarrow> sessionShape j (stAgent st) (stSessionId st) es fin)))"

lemma unpull_genNext: "genNext g = (promise, g') \<Longrightarrow> unpull promise g' = (yields g, completion g)"
  by (auto simp: genNext_def unpull_def split: list.splits Completion.splits)

lemma untimed_synthError [simp]:
  "untimed (synth j (makeSynthError now c ag code msg sid)) = synthErrorShape j ag code msg sid"
  by (simp add: untimed_def synth_def makeSynthError_def createEvent_def synthErrorShape_def)

lemma untimed_synthDone [simp]:
  "untimed (synth j (makeSynthDone now c ag status sid t)) = synthDoneShape j ag status sid"
  by (simp add: untimed_def synth_def makeSynthDone_def createEvent_def synthDoneShape_def
      zeroUsage_def)

lemma untimed_forward [simp]:
  "untimed (forward j e) = \<lparr> task = j, synthesized = False, ev = e \<rparr>"
  by (simp add: untimed_def forward_def)

lemma map_of_pendingDelete:
  "map_of (pendingDelete i p) j = (if j = i then None else map_of p j)"
  by (induction p) (auto simp: pendingDelete_def)

lemma map_of_pending_append:
  "i \<notin> fst ` set p \<Longrightarrow> map_of (p @ [(i, x)]) j = (if j = i then Some x else map_of p j)"
  by (induction p) auto

lemma map_of_pending_member:
  "distinct (map fst p) \<Longrightarrow> (i, r) \<in> set p \<Longrightarrow> map_of p i = Some r"
  by (rule map_of_is_SomeI)

lemma parStep_shape:
  assumes wf: "wellFormed states pending" and mem: "entry \<in> set pending"
    and step: "parStep now states pending c entry = (out, states', pending', c', None)"
  shows "restShape j states pending =
           map untimed (projection j out) @ restShape j states' pending'"
  using wf mem step
proof (cases rule: parStep_cases)
  case (Rejected index st err msg)
  from wf mem Rejected(1) have m: "map_of pending index = Some (Rejected err)"
    by (auto simp: wellFormed_def intro: map_of_pending_member)
  from Rejected(2) have lt: "index < length states" by (rule stateAt_Some_less)
  show ?thesis
    using m Rejected(2,3) lt
    by (cases "j = index")
      (simp_all add: restShape_def Rejected(4,5,6) projection_def map_of_pendingDelete
        unpull_def stateAt_update cong: option.case_cong)
next
  case (Exhausted index st)
  from wf mem Exhausted(1) have m: "map_of pending index = Some (Resolved IterDone)"
    by (auto simp: wellFormed_def intro: map_of_pending_member)
  from Exhausted(2) have lt: "index < length states" by (rule stateAt_Some_less)
  show ?thesis
    using m Exhausted(2) lt
    by (cases "j = index")
      (simp_all add: restShape_def Exhausted(3,4,5) projection_def map_of_pendingDelete
        unpull_def stateAt_update cong: option.case_cong)
next
  case (Done index st e)
  from wf mem Done(1) have m: "map_of pending index = Some (Resolved (IterValue e))"
    by (auto simp: wellFormed_def intro: map_of_pending_member)
  from Done(2) have lt: "index < length states" by (rule stateAt_Some_less)
  show ?thesis
    using m Done(2,3) lt
    by (cases "j = index")
      (simp_all add: restShape_def Done(4,5,6) projection_def map_of_pendingDelete
        unpull_def stateAt_update cong: option.case_cong)
next
  case (Event index st e promise gen')
  from wf mem Event(1) have m: "map_of pending index = Some (Resolved (IterValue e))"
    by (auto simp: wellFormed_def intro: map_of_pending_member)
  from Event(2) have lt: "index < length states" by (rule stateAt_Some_less)
  have fresh: "index \<notin> fst ` set (pendingDelete index pending)"
    by (simp add: keys_pendingDelete)
  have mp: "map_of pending' i = (if i = index then Some promise else map_of pending i)" for i
    unfolding Event(7) map_of_pending_append [OF fresh] map_of_pendingDelete by simp
  have sa: "stateAt states' i =
      (if i = index then Some (st\<lparr> stSessionId := sessionId e, stGen := gen' \<rparr>)
       else stateAt states i)" for i
    using lt by (simp add: Event(6) stateAt_update)
  have up: "unpull promise gen' = (yields (stGen st), completion (stGen st))"
    by (rule unpull_genNext [OF Event(5)])
  have up0: "unpull (Resolved (IterValue e)) (stGen st) =
      (e # yields (stGen st), completion (stGen st))"
    by (simp add: unpull_def)
  show ?thesis
  proof (cases "j = index")
    case True
    with m Event(2,3) show ?thesis
      by (simp add: restShape_def mp sa up up0 Event(4) projection_def)
  next
    case False
    then show ?thesis
      by (simp add: restShape_def mp sa Event(4) projection_def cong: option.case_cong)
  qed
qed

text \<open>
  With no cancellation, and no exception of a conversion, what the loop yields for a task
  is what is left of its session.
\<close>

lemma parallelLoop_projection:
  assumes wf: "wellFormed states pending"
    and never: "\<And>k'. \<not> list_ex (\<lambda>s. abortedAt (Some s) k') signals"
    and ok: "snd (parallelLoop now sched signals states pending c k) = None"
  shows "map untimed (projection j (fst (parallelLoop now sched signals states pending c k))) =
           restShape j states pending"
proof -
  have "snd (parallelLoop now sched signals states pending c k) = None \<longrightarrow>
        (\<forall>j. map untimed (projection j (fst (parallelLoop now sched signals states pending c k))) =
              restShape j states pending)"
  proof (rule parallelLoop_rounds
      [OF wf, where P = "\<lambda>states pending c k r. snd r = None \<longrightarrow>
                    (\<forall>j. map untimed (projection j (fst r)) = restShape j states pending)"
         and now = now and signals = signals], goal_cases)
    case (1 states c k)
    show ?case by (simp add: projection_def restShape_def)
  next
    case (2 states pending c k)
    with never show ?case by blast
  next
    case (3 states pending c k index err t)
    show ?case by simp
  next
    case (4 states pending c k entry out states' pending' c' out2 t2)
    show ?case
    proof (intro impI allI)
      fix j
      assume "snd (out @ out2, t2) = None"
      with 4(5) have "map untimed (projection j out2) = restShape j states' pending'"
        by simp
      with parStep_shape [OF 4(1,2,3), of j]
      show "map untimed (projection j (fst (out @ out2, t2))) = restShape j states pending"
        by (simp add: projection_def)
    qed
  qed
  with ok show ?thesis by blast
qed

text \<open>
  With cancellation, what the loop yields for a task is what is left of its session, or
  that cut short.
\<close>

definition restCut ::
  "nat \<Rightarrow> AdapterState option list \<Rightarrow> (nat \<times> Settled) list \<Rightarrow> Emitted list \<Rightarrow> bool" where
  "restCut j states pending xs =
     (case map_of pending j of
        None \<Rightarrow> xs = []
      | Some promise \<Rightarrow>
          (case stateAt states j of
             None \<Rightarrow> xs = []
           | Some st \<Rightarrow>
               (case unpull promise (stGen st) of
                  (es, fin) \<Rightarrow> cutSessionShape j (stAgent st) (stSessionId st) es fin xs)))"

lemma cutSessionShape_interrupted:
  "cutSessionShape j ag sid es fin [synthDoneShape j ag StatusInterrupted sid]"
  by (cases es) simp_all

lemma cutSessionShape_whole: "cutSessionShape j ag sid es fin (sessionShape j ag sid es fin)"
  by (induction es arbitrary: sid) simp_all

lemma restCut_restShape: "restCut j states pending (restShape j states pending)"
  by (simp add: restCut_def restShape_def cutSessionShape_whole
      split: option.splits prod.splits)

lemma yieldInterrupted_projection:
  "map untimed (projection j (yieldInterruptedAndCleanup now c i states)) =
     (if i \<le> j
      then (case stateAt states (j - i) of
              None \<Rightarrow> []
            | Some st \<Rightarrow>
                if \<not> stDoneYielded st
                then [synthDoneShape j (stAgent st) StatusInterrupted (stSessionId st)]
                else [])
      else [])"
proof (induction states arbitrary: c i)
  case Nil
  show ?case by (simp add: projection_def stateAt_def)
next
  case (Cons s states)
  have shift: "stateAt (s # states) (j - i) = stateAt states (j - Suc i)" if "i < j"
    using that by (auto simp: stateAt_def nth_Cons' Suc_diff_Suc)
  have here: "stateAt (s # states) 0 = s"
    by (simp add: stateAt_def)
  show ?case
  proof (cases s)
    case None
    with Cons [of c "Suc i"] shift here show ?thesis
      by (cases "i < j"; cases "i = j") (auto simp: projection_def)
  next
    case (Some st)
    show ?thesis
    proof (cases "stDoneYielded st")
      case True
      with Some Cons [of c "Suc i"] shift here show ?thesis
        by (cases "i < j"; cases "i = j") (auto simp: projection_def)
    next
      case False
      with Some Cons [of "c + 2" "Suc i"] shift here show ?thesis
        by (cases "i < j"; cases "i = j") (auto simp: projection_def)
    qed
  qed
qed

lemma restCut_interrupted:
  assumes wf: "wellFormed states pending"
  shows "restCut j states pending
           (map untimed (projection j (yieldInterruptedAndCleanup now c 0 states)))"
proof (cases "map_of pending j")
  case None
  then have "j \<notin> fst ` set pending"
    by (simp add: map_of_eq_None_iff)
  with wf have "stateAt states j = None"
    by (auto simp: wellFormed_def)
  with None show ?thesis
    by (simp add: restCut_def yieldInterrupted_projection)
next
  case (Some promise)
  then have "j \<in> fst ` set pending"
    by (metis map_of_eq_None_iff option.distinct(1))
  with wf obtain st where st: "stateAt states j = Some st" "\<not> stDoneYielded st"
    by (auto simp: wellFormed_def)
  with Some show ?thesis
    by (simp add: restCut_def yieldInterrupted_projection cutSessionShape_interrupted
        split: prod.splits)
qed

lemma parStep_cut:
  assumes wf: "wellFormed states pending" and mem: "entry \<in> set pending"
    and step: "parStep now states pending c entry = (out, states', pending', c', None)"
    and rest: "restCut j states' pending' xs"
  shows "restCut j states pending (map untimed (projection j out) @ xs)"
  using wf mem step
proof (cases rule: parStep_cases)
  case (Rejected index st err msg)
  from wf mem Rejected(1) have m: "map_of pending index = Some (Rejected err)"
    by (auto simp: wellFormed_def intro: map_of_pending_member)
  from Rejected(2) have lt: "index < length states" by (rule stateAt_Some_less)
  show ?thesis
    using m Rejected(2,3) lt rest
    by (cases "j = index")
      (simp_all add: restCut_def Rejected(4,5,6) projection_def map_of_pendingDelete
        unpull_def stateAt_update cong: option.case_cong)
next
  case (Exhausted index st)
  from wf mem Exhausted(1) have m: "map_of pending index = Some (Resolved IterDone)"
    by (auto simp: wellFormed_def intro: map_of_pending_member)
  from Exhausted(2) have lt: "index < length states" by (rule stateAt_Some_less)
  show ?thesis
    using m Exhausted(2) lt rest
    by (cases "j = index")
      (simp_all add: restCut_def Exhausted(3,4,5) projection_def map_of_pendingDelete
        unpull_def stateAt_update cong: option.case_cong)
next
  case (Done index st e)
  from wf mem Done(1) have m: "map_of pending index = Some (Resolved (IterValue e))"
    by (auto simp: wellFormed_def intro: map_of_pending_member)
  from Done(2) have lt: "index < length states" by (rule stateAt_Some_less)
  show ?thesis
    using m Done(2,3) lt rest
    by (cases "j = index")
      (simp_all add: restCut_def Done(4,5,6) projection_def map_of_pendingDelete
        unpull_def stateAt_update cong: option.case_cong)
next
  case (Event index st e promise gen')
  from wf mem Event(1) have m: "map_of pending index = Some (Resolved (IterValue e))"
    by (auto simp: wellFormed_def intro: map_of_pending_member)
  from Event(2) have lt: "index < length states" by (rule stateAt_Some_less)
  have fresh: "index \<notin> fst ` set (pendingDelete index pending)"
    by (simp add: keys_pendingDelete)
  have mp: "map_of pending' i = (if i = index then Some promise else map_of pending i)" for i
    unfolding Event(7) map_of_pending_append [OF fresh] map_of_pendingDelete by simp
  have sa: "stateAt states' i =
      (if i = index then Some (st\<lparr> stSessionId := sessionId e, stGen := gen' \<rparr>)
       else stateAt states i)" for i
    using lt by (simp add: Event(6) stateAt_update)
  have up: "unpull promise gen' = (yields (stGen st), completion (stGen st))"
    by (rule unpull_genNext [OF Event(5)])
  have up0: "unpull (Resolved (IterValue e)) (stGen st) =
      (e # yields (stGen st), completion (stGen st))"
    by (simp add: unpull_def)
  show ?thesis
  proof (cases "j = index")
    case True
    with m Event(2,3) rest show ?thesis
      by (simp add: restCut_def mp sa up up0 Event(4) projection_def)
  next
    case False
    with rest show ?thesis
      by (simp add: restCut_def mp sa Event(4) projection_def cong: option.case_cong)
  qed
qed

lemma parallelLoop_cut:
  assumes wf: "wellFormed states pending"
    and ok: "snd (parallelLoop now sched signals states pending c k) = None"
  shows "restCut j states pending
           (map untimed (projection j (fst (parallelLoop now sched signals states pending c k))))"
proof -
  have "snd (parallelLoop now sched signals states pending c k) = None \<longrightarrow>
        (\<forall>j. restCut j states pending
                (map untimed
                   (projection j (fst (parallelLoop now sched signals states pending c k)))))"
  proof (rule parallelLoop_rounds
      [OF wf, where P = "\<lambda>states pending c k r. snd r = None \<longrightarrow>
                    (\<forall>j. restCut j states pending (map untimed (projection j (fst r))))"
         and now = now and signals = signals], goal_cases)
    case (1 states c k)
    show ?case by (simp add: projection_def restCut_def)
  next
    case (2 states pending c k)
    then show ?case by (simp add: restCut_interrupted)
  next
    case (3 states pending c k index err t)
    show ?case by simp
  next
    case (4 states pending c k entry out states' pending' c' out2 t2)
    show ?case
    proof (intro impI allI)
      fix j
      assume "snd (out @ out2, t2) = None"
      with 4(5) have "restCut j states' pending' (map untimed (projection j out2))"
        by simp
      from parStep_cut [OF 4(1,2,3) this]
      show "restCut j states pending (map untimed (projection j (fst (out @ out2, t2))))"
        by (simp add: projection_def)
    qed
  qed
  with ok show ?thesis by blast
qed

text \<open>
  The loop ends with an exception only through the conversion of a thrown value: with
  every value that the generators throw convertible, it ends without one.
\<close>

definition convertiblePool :: "AdapterState option list \<Rightarrow> (nat \<times> Settled) list \<Rightarrow> bool" where
  "convertiblePool states pending \<longleftrightarrow>
     (\<forall>i err. (i, Rejected err) \<in> set pending \<longrightarrow> (\<exists>msg. errorText err = Inr msg)) \<and>
     (\<forall>i st err. stateAt states i = Some st \<longrightarrow> completion (stGen st) = Throws err \<longrightarrow>
        (\<exists>msg. errorText err = Inr msg))"

lemma genNext_convertible:
  assumes "genNext g = (promise, g')"
    and "\<And>err. completion g = Throws err \<Longrightarrow> \<exists>msg. errorText err = Inr msg"
  shows "(\<forall>err. promise = Rejected err \<longrightarrow> (\<exists>msg. errorText err = Inr msg)) \<and>
         (\<forall>err. completion g' = Throws err \<longrightarrow> (\<exists>msg. errorText err = Inr msg))"
  using assms
  by (auto simp: genNext_def split: list.splits Completion.splits)

lemma in_pendingDelete: "x \<in> set (pendingDelete i p) \<Longrightarrow> x \<in> set p"
  by (simp add: pendingDelete_def)

lemma parStep_convertible:
  assumes wf: "wellFormed states pending" and mem: "entry \<in> set pending"
    and step: "parStep now states pending c entry = (out, states', pending', c', None)"
    and conv: "convertiblePool states pending"
  shows "convertiblePool states' pending'"
  using wf mem step
proof (cases rule: parStep_cases)
  case (Rejected index st err msg)
  with conv show ?thesis
    by (auto simp: convertiblePool_def stateAt_update dest: in_pendingDelete split: if_splits)
next
  case (Exhausted index st)
  with conv show ?thesis
    by (auto simp: convertiblePool_def stateAt_update dest: in_pendingDelete split: if_splits)
next
  case (Done index st e)
  with conv show ?thesis
    by (auto simp: convertiblePool_def stateAt_update dest: in_pendingDelete split: if_splits)
next
  case (Event index st e promise gen')
  from conv Event(2) have c0: "\<And>err. completion (stGen st) = Throws err \<Longrightarrow>
      \<exists>msg. errorText err = Inr msg"
    by (auto simp: convertiblePool_def)
  from genNext_convertible [OF Event(5) c0]
  have p: "\<And>err. promise = Rejected err \<Longrightarrow> \<exists>msg. errorText err = Inr msg"
    and g: "\<And>err. completion gen' = Throws err \<Longrightarrow> \<exists>msg. errorText err = Inr msg"
    by blast+
  from Event(2) have lt: "index < length states" by (rule stateAt_Some_less)
  show ?thesis
    unfolding convertiblePool_def
  proof (intro conjI allI impI)
    fix i err
    assume "(i, Rejected err) \<in> set pending'"
    then have "(i, Rejected err) \<in> set pending \<or> promise = Rejected err"
      by (auto simp: Event(7) dest: in_pendingDelete)
    with conv p show "\<exists>msg. errorText err = Inr msg"
      by (auto simp: convertiblePool_def)
  next
    fix i st' err
    assume a: "stateAt states' i = Some st'" "completion (stGen st') = Throws err"
    show "\<exists>msg. errorText err = Inr msg"
    proof (cases "i = index")
      case True
      with a(1) lt have "st' = st\<lparr> stSessionId := sessionId e, stGen := gen' \<rparr>"
        by (simp add: Event(6) stateAt_update)
      with a(2) have "completion gen' = Throws err"
        by simp
      then show ?thesis by (rule g)
    next
      case False
      with a have "stateAt states i = Some st'"
        by (simp add: Event(6) stateAt_update)
      with conv a(2) show ?thesis
        by (auto simp: convertiblePool_def)
    qed
  qed
qed

lemma parallelLoop_no_exception:
  assumes wf: "wellFormed states pending" and conv: "convertiblePool states pending"
  shows "snd (parallelLoop now sched signals states pending c k) = None"
proof -
  have "convertiblePool states pending \<longrightarrow>
        snd (parallelLoop now sched signals states pending c k) = None"
  proof (rule parallelLoop_rounds
      [OF wf, where P = "\<lambda>states pending c k r. convertiblePool states pending \<longrightarrow> snd r = None"
         and now = now and signals = signals], goal_cases)
    case (1 states c k)
    show ?case by simp
  next
    case (2 states pending c k)
    show ?case by simp
  next
    case (3 states pending c k index err t)
    show ?case
    proof
      assume "convertiblePool states pending"
      with 3(2) obtain msg where "errorText err = Inr msg"
        unfolding convertiblePool_def by blast
      with 3(3) show "snd ([] :: Emitted list, Some t) = None" by simp
    qed
  next
    case (4 states pending c k entry out states' pending' c' out2 t2)
    with parStep_convertible [OF 4(1,2,3)] show ?case by simp
  qed
  with conv show ?thesis by blast
qed


lemma cutSessionShape_terminal:
  assumes "cutSessionShape j ag sid es fin xs"
    and "\<And>err. fin = Throws err \<Longrightarrow> \<exists>msg. errorText err = Inr msg"
  shows "xs \<noteq> [] \<and> isDone (ev (last xs)) \<and>
         length (filter (\<lambda>x. isDone (ev x)) xs) = 1 \<and>
         ((\<forall>e \<in> set es. \<not> isDone e) \<longrightarrow> synthesized (last xs))"
  using assms(1)
proof (induction es arbitrary: sid xs)
  case Nil
  show ?case
  proof (cases fin)
    case Returns
    with Nil show ?thesis
      by (auto simp: isDone_def synthDoneShape_def synthErrorShape_def)
  next
    case (Throws err)
    from assms(2) [OF this] obtain msg where "errorText err = Inr msg" by blast
    with Throws Nil show ?thesis
      by (auto simp: isDone_def synthDoneShape_def synthErrorShape_def)
  qed
next
  case (Cons e es)
  show ?case
  proof (cases "xs = [synthDoneShape j ag StatusInterrupted sid]")
    case True
    then show ?thesis by (simp add: isDone_def synthDoneShape_def)
  next
    case False
    with Cons.prems obtain xs' where xs: "xs = \<lparr> task = j, synthesized = False, ev = e \<rparr> # xs'"
      and rest: "if etype e = ''done'' then xs' = []
                 else cutSessionShape j ag (sessionId e) es fin xs'"
      by (auto split: list.splits)
    show ?thesis
    proof (cases "etype e = ''done''")
      case True
      with xs rest show ?thesis by (simp add: isDone_def)
    next
      case False
      with rest have "cutSessionShape j ag (sessionId e) es fin xs'" by simp
      from Cons.IH [OF this] xs False show ?thesis
        by (simp add: isDone_def)
    qed
  qed
qed

lemma untimed_fields [simp]:
  "task (untimed x) = task x" "synthesized (untimed x) = synthesized x"
  "etype (ev (untimed x)) = etype (ev x)" "sessionId (ev (untimed x)) = sessionId (ev x)"
  by (simp_all add: untimed_def)

lemma isDone_untimed [simp]: "isDone (ev (untimed x)) = isDone (ev x)"
  by (simp add: isDone_def)

text \<open>The pool of promises after the first \<open>scheduleNext\<close> of every task.\<close>

lemma initial_pool:
  assumes sa: "scheduleAll (initialStates now uuid tasks) = (states, pending)"
    and j: "j < length tasks"
  obtains st where
    "map_of pending j =
       Some (fst (genNext (run (taskAdapter (tasks ! j)) (taskPrompt (tasks ! j))
          (taskOptions (tasks ! j)))))"
    "stateAt states j = Some st"
    "stGen st =
       snd (genNext (run (taskAdapter (tasks ! j)) (taskPrompt (tasks ! j))
          (taskOptions (tasks ! j))))"
    "stAgent st = adapterAgent (taskAdapter (tasks ! j))"
    "stSessionId st = uuid j"
proof (rule scheduleAll_initial [of now uuid tasks])
  fix states0 pending0
  assume i: "scheduleAll (initialStates now uuid tasks) = (states0, pending0)"
    "pending0 = map (\<lambda>i. (i, fst (genNext (stGen (initialState now uuid tasks i)))))
                 [0..<length tasks]"
    "length states0 = length tasks"
    "\<And>i. i < length tasks \<Longrightarrow>
       states0 ! i = Some ((initialState now uuid tasks i)
         \<lparr> stGen := snd (genNext (stGen (initialState now uuid tasks i))) \<rparr>)"
  with sa have eq: "states = states0" "pending = pending0" by simp_all
  let ?g = "stGen (initialState now uuid tasks j)"
  have "(j, fst (genNext ?g)) \<in> set pending"
    using j unfolding eq i(2) by auto
  moreover have "distinct (map fst pending)"
    unfolding eq i(2) by (simp add: comp_def)
  ultimately have m: "map_of pending j = Some (fst (genNext ?g))"
    by (rule map_of_pending_member [rotated])
  have st: "stateAt states j = Some ((initialState now uuid tasks j)\<lparr> stGen := snd (genNext ?g) \<rparr>)"
    using j i(3) i(4) [of j] by (simp add: eq stateAt_def)
  show thesis
    by (rule that [OF _ st]) (use m in \<open>simp_all add: initialState_def\<close>)
qed

lemma restShape_initial:
  assumes sa: "scheduleAll (initialStates now uuid tasks) = (states, pending)"
    and j: "j < length tasks"
  shows "restShape j states pending =
           sessionShape j (adapterAgent (taskAdapter (tasks ! j))) (uuid j)
             (yields (run (taskAdapter (tasks ! j)) (taskPrompt (tasks ! j))
                (taskOptions (tasks ! j))))
             (completion (run (taskAdapter (tasks ! j)) (taskPrompt (tasks ! j))
                (taskOptions (tasks ! j))))"
proof -
  let ?g = "run (taskAdapter (tasks ! j)) (taskPrompt (tasks ! j)) (taskOptions (tasks ! j))"
  from initial_pool [OF sa j] obtain st where
    p: "map_of pending j = Some (fst (genNext ?g))" "stateAt states j = Some st"
      "stGen st = snd (genNext ?g)" "stAgent st = adapterAgent (taskAdapter (tasks ! j))"
      "stSessionId st = uuid j"
    by blast
  have up: "unpull (fst (genNext ?g)) (snd (genNext ?g)) = (yields ?g, completion ?g)"
    by (rule unpull_genNext) simp
  show ?thesis
    by (simp add: restShape_def p up)
qed

lemma restCut_initial:
  assumes sa: "scheduleAll (initialStates now uuid tasks) = (states, pending)"
    and j: "j < length tasks"
  shows "restCut j states pending xs =
           cutSessionShape j (adapterAgent (taskAdapter (tasks ! j))) (uuid j)
             (yields (run (taskAdapter (tasks ! j)) (taskPrompt (tasks ! j))
                (taskOptions (tasks ! j))))
             (completion (run (taskAdapter (tasks ! j)) (taskPrompt (tasks ! j))
                (taskOptions (tasks ! j)))) xs"
proof -
  let ?g = "run (taskAdapter (tasks ! j)) (taskPrompt (tasks ! j)) (taskOptions (tasks ! j))"
  from initial_pool [OF sa j] obtain st where
    p: "map_of pending j = Some (fst (genNext ?g))" "stateAt states j = Some st"
      "stGen st = snd (genNext ?g)" "stAgent st = adapterAgent (taskAdapter (tasks ! j))"
      "stSessionId st = uuid j"
    by blast
  have up: "unpull (fst (genNext ?g)) (snd (genNext ?g)) = (yields ?g, completion ?g)"
    by (rule unpull_genNext) simp
  show ?thesis
    by (simp add: restCut_def p up)
qed

lemma convertiblePool_initial:
  assumes sa: "scheduleAll (initialStates now uuid tasks) = (states, pending)"
    and conv: "\<forall>t \<in> set tasks. \<forall>err.
        completion (run (taskAdapter t) (taskPrompt t) (taskOptions t)) = Throws err \<longrightarrow>
        (\<exists>msg. errorText err = Inr msg)"
  shows "convertiblePool states pending"
proof (rule scheduleAll_initial [of now uuid tasks])
  fix states0 pending0
  assume i: "scheduleAll (initialStates now uuid tasks) = (states0, pending0)"
    "pending0 = map (\<lambda>i. (i, fst (genNext (stGen (initialState now uuid tasks i)))))
                 [0..<length tasks]"
    "length states0 = length tasks"
    "\<And>i. i < length tasks \<Longrightarrow>
       states0 ! i = Some ((initialState now uuid tasks i)
         \<lparr> stGen := snd (genNext (stGen (initialState now uuid tasks i))) \<rparr>)"
  with sa have eq: "states = states0" "pending = pending0" by simp_all
  have each: "(\<forall>err. fst (genNext (stGen (initialState now uuid tasks j))) = Rejected err \<longrightarrow>
                 (\<exists>msg. errorText err = Inr msg)) \<and>
              (\<forall>err. completion (snd (genNext (stGen (initialState now uuid tasks j)))) = Throws err \<longrightarrow>
                 (\<exists>msg. errorText err = Inr msg))"
    if "j < length tasks" for j
  proof (rule genNext_convertible)
    show "genNext (stGen (initialState now uuid tasks j)) =
        (fst (genNext (stGen (initialState now uuid tasks j))),
         snd (genNext (stGen (initialState now uuid tasks j))))"
      by simp
  next
    fix err
    assume "completion (stGen (initialState now uuid tasks j)) = Throws err"
    with conv that show "\<exists>msg. errorText err = Inr msg"
      by (auto simp: initialState_def)
  qed
  show ?thesis
    unfolding convertiblePool_def
  proof (intro conjI allI impI)
    fix j err
    assume "(j, Rejected err) \<in> set pending"
    then have "j < length tasks"
      and "fst (genNext (stGen (initialState now uuid tasks j))) = Rejected err"
      unfolding eq i(2) by auto
    with each [of j] show "\<exists>msg. errorText err = Inr msg" by blast
  next
    fix j st err
    assume a: "stateAt states j = Some st" "completion (stGen st) = Throws err"
    from a(1) i(3) have lt: "j < length tasks"
      by (auto simp: eq dest: stateAt_Some_less)
    with a(1) i(4) [of j] have "st = (initialState now uuid tasks j)
         \<lparr> stGen := snd (genNext (stGen (initialState now uuid tasks j))) \<rparr>"
      by (simp add: eq stateAt_def i(3))
    with a(2) have "completion (snd (genNext (stGen (initialState now uuid tasks j)))) = Throws err"
      by simp
    with each [OF lt] show "\<exists>msg. errorText err = Inr msg" by blast
  qed
qed

lemma taskSignals_never:
  assumes "\<forall>t \<in> set tasks. \<forall>k. \<not> abortedAt (signalOf (taskOptions t)) k"
  shows "\<not> list_ex (\<lambda>s. abortedAt (Some s) k') (taskSignals tasks)"
  using assms
  by (auto simp: list_ex_iff taskSignals_def List.map_filter_def)

lemma preAbortedDones_map:
  "preAbortedDones now uuid i ts =
     map (\<lambda>j. synth j (makeSynthDone now (3 * j + 1) (adapterAgent (taskAdapter (ts ! (j - i))))
                  StatusInterrupted (uuid j) (now (3 * j))))
         [i..<i + length ts]"
proof (induction ts arbitrary: i)
  case Nil
  show ?case by simp
next
  case (Cons t ts)
  have "[i..<i + length (t # ts)] = i # [Suc i..<Suc i + length ts]"
    by (subst upt_rec) simp
  moreover have "(t # ts) ! (j - i) = ts ! (j - Suc i)" if "j \<in> set [Suc i..<Suc i + length ts]" for j
    using that by (auto simp: nth_Cons')
  ultimately show ?case
    using Cons [of "Suc i"] by (simp cong: map_cong)
qed

lemma filter_upt_eq: "filter (\<lambda>i. i = j) [0..<n] = (if j < n then [j] else [])"
  by (induction n) auto

lemma preAbortedDones_projection:
  assumes "j < length tasks"
  shows "map untimed (projection j (preAbortedDones now uuid 0 tasks)) =
           [synthDoneShape j (adapterAgent (taskAdapter (tasks ! j))) StatusInterrupted (uuid j)]"
  using assms
  by (simp add: preAbortedDones_map projection_def filter_map comp_def filter_upt_eq)

text \<open>
  Whenever what the generators throw, if they throw, is an \<open>Error\<close> or a value with a
  string conversion: for every list of tasks, every order in which the promises settle and
  whenever the cancellation tokens fire, \<open>runParallel\<close> ends without an exception, and what
  its merged stream holds for a task is the session of that task's own generator alone (its
  events up to its \<open>done\<close>, or else the error and the \<open>done\<close> made for it), or that session
  cut short by the cancellation, with exactly one \<open>done\<close> either way. When no token
  fires it is the whole session: a task whose generator throws changes nothing for the
  others.
\<close>

lemma runParallel_sessions:
  assumes conv: "\<forall>t \<in> set tasks. \<forall>err.
      completion (run (taskAdapter t) (taskPrompt t) (taskOptions t)) = Throws err \<longrightarrow>
      (\<exists>msg. errorText err = Inr msg)"
  shows "\<exists>r. runParallel now uuid sched tasks = Inr r \<and>
           (\<forall>j < length tasks.
              cutSessionShape j (adapterAgent (taskAdapter (tasks ! j))) (uuid j)
                (yields (run (taskAdapter (tasks ! j)) (taskPrompt (tasks ! j))
                   (taskOptions (tasks ! j))))
                (completion (run (taskAdapter (tasks ! j)) (taskPrompt (tasks ! j))
                   (taskOptions (tasks ! j))))
                (map untimed (projection j (emitted r))) \<and>
              length (filter (\<lambda>x. isDone (ev x)) (projection j (emitted r))) = 1) \<and>
           ((\<forall>t \<in> set tasks. \<forall>k. \<not> abortedAt (signalOf (taskOptions t)) k) \<longrightarrow>
            (\<forall>j < length tasks.
               map untimed (projection j (emitted r)) =
                 sessionShape j (adapterAgent (taskAdapter (tasks ! j))) (uuid j)
                   (yields (run (taskAdapter (tasks ! j)) (taskPrompt (tasks ! j))
                      (taskOptions (tasks ! j))))
                   (completion (run (taskAdapter (tasks ! j)) (taskPrompt (tasks ! j))
                      (taskOptions (tasks ! j))))))"
proof -
  let ?ag = "\<lambda>j. adapterAgent (taskAdapter (tasks ! j))"
  let ?g = "\<lambda>j. run (taskAdapter (tasks ! j)) (taskPrompt (tasks ! j)) (taskOptions (tasks ! j))"
  have one: "length (filter (\<lambda>x. isDone (ev x)) xs) = 1"
    if "cutSessionShape j (?ag j) (uuid j) (yields (?g j)) (completion (?g j)) (map untimed xs)"
      and "j < length tasks" for j xs
  proof -
    from that(2) conv have "\<And>err. completion (?g j) = Throws err \<Longrightarrow> \<exists>msg. errorText err = Inr msg"
      by (metis nth_mem)
    from cutSessionShape_terminal [OF that(1) this]
    have "length (filter (\<lambda>x. isDone (ev x)) (map untimed xs)) = 1" by blast
    then show ?thesis by (simp add: filter_map comp_def)
  qed
  show ?thesis
  proof (cases "tasks = []")
    case True
    then show ?thesis by (simp add: runParallel_def)
  next
    case ne: False
    show ?thesis
    proof (cases "list_ex (\<lambda>t. abortedAt (signalOf (taskOptions t)) 0) tasks")
      case True
      let ?r = "\<lparr> emitted = preAbortedDones now uuid 0 tasks, runCalls = 0 \<rparr>"
      from ne True have r: "runParallel now uuid sched tasks = Inr ?r"
        by (simp add: runParallel_def)
      have cut: "cutSessionShape j (?ag j) (uuid j) (yields (?g j)) (completion (?g j))
          (map untimed (projection j (emitted ?r)))" if "j < length tasks" for j
        using that by (simp add: preAbortedDones_projection cutSessionShape_interrupted)
      from True have "\<not> (\<forall>t \<in> set tasks. \<forall>k. \<not> abortedAt (signalOf (taskOptions t)) k)"
        by (auto simp: list_ex_iff)
      with r cut one show ?thesis by blast
    next
      case False
      obtain states pending where
        sa: "scheduleAll (initialStates now uuid tasks) = (states, pending)"
        by (cases "scheduleAll (initialStates now uuid tasks)")
      from wellFormed_initial [OF sa] have wf: "wellFormed states pending" by simp
      let ?loop = "parallelLoop now sched (taskSignals tasks) states pending (length tasks) 0"
      have ok: "snd ?loop = None"
        by (rule parallelLoop_no_exception [OF wf convertiblePool_initial [OF sa conv]])
      let ?r = "\<lparr> emitted = fst ?loop, runCalls = length tasks \<rparr>"
      from ne False sa ok have r: "runParallel now uuid sched tasks = Inr ?r"
        by (cases ?loop) (simp add: runParallel_def)
      have cut: "cutSessionShape j (?ag j) (uuid j) (yields (?g j)) (completion (?g j))
          (map untimed (projection j (emitted ?r)))" if "j < length tasks" for j
        using parallelLoop_cut [OF wf ok, of j] restCut_initial [OF sa that] by simp
      have whole: "map untimed (projection j (emitted ?r)) =
          sessionShape j (?ag j) (uuid j) (yields (?g j)) (completion (?g j))"
        if "\<forall>t \<in> set tasks. \<forall>k. \<not> abortedAt (signalOf (taskOptions t)) k"
          and "j < length tasks" for j
        using parallelLoop_projection [OF wf taskSignals_never [OF that(1)] ok, of j]
          restShape_initial [OF sa that(2)] by simp
      from r cut one whole show ?thesis by blast
    qed
  qed
qed


text \<open>
  C2 (one \<open>done\<close> per task, and a task that throws leaves the others as they are) fails
  on the code when a task's generator throws a value that \<open>String\<close> cannot convert: the conversion throws inside the loop, nothing catches it, and \<open>runParallel\<close>
  ends with that exception. Here the first task yields one event and then throws such a
  value; the second, whose generator holds one event more and its \<open>done\<close>, gets neither.
  With the first task throwing an \<open>Error\<close> instead, the second is served to its \<open>done\<close>.
\<close>

theorem runParallel_unconvertible_throw_ends_all:
  "runParallel sampleClock sampleUuid firstSettled unconvertibleTasks =
     Inl ([forward 0 (textEvent ''claude-code'' ''before-error'' ''sid-a''),
           forward 1 (textEvent ''codex'' ''ok'' ''sid-b'')],
          ErrorObj ''Cannot convert object to primitive value'') \<and>
   map (\<lambda>x. etype (ev x))
     (projection 1 (yielded (runParallel sampleClock sampleUuid firstSettled isolationTasks))) =
     [''text'', ''done'']"
  by code_simp

section \<open>Theorems: both drivers\<close>

text \<open>
  C5, as stated, fails on the duration: the synthesized \<open>done\<close> takes its duration from
  two readings of the clock, and is not 0 when the clock advances between them.
\<close>

theorem preAborted_duration_counterexample:
  "runAgent sampleClock sampleUuid ''mock'' ''hi'' (Some preAbortedOptions)
     [''mock'' \<mapsto> createMockAdapter ''mock'' [] None] =
   Inr \<lparr> emitted =
           [synth 0 \<lparr> etype = ''done'', agent = ''mock'', timestamp = 1002,
                      sessionId = ''uuid-'', metadata = None,
                      payload = DonePayload StatusInterrupted None
                        \<lparr> inputTokens = 0, outputTokens = 0, toolUses = 0,
                          totalCostUsd = None \<rparr> 1 \<rparr>],
         runCalls = 0 \<rparr> \<and>
   (1 :: rat) \<noteq> 0"
  by (simp add: runAgent_driven signalOf_def abortedAt_def preAbortedOptions_def noOptions_def
      makeSynthDone_def createEvent_def zeroUsage_def sampleClock_def sampleUuid_def)

text \<open>
  C5 (amended): when the cancellation token is already fired at the call, no adapter's
  \<open>run\<close> is called and the output is exactly the synthesized terminal events.
  \<open>runAgent\<close> yields the single event \<open>done{interrupted}\<close> with zeroed usage, whose
  duration is the time between the driver's two readings of the clock (0 when the clock has
  not advanced). \<open>runParallel\<close>, when any task's token is fired, yields one such
  \<open>done{interrupted}\<close> per task, in task order.
\<close>

theorem preAborted_synthesized_done:
  "(registry ag = Some adapter \<and> abortedAt (signalOf opts) 0 \<longrightarrow>
      runAgent now uuid ag prompt opts registry =
        Inr \<lparr> emitted =
                [synth 0 \<lparr> etype = ''done'', agent = ag, timestamp = now 2,
                           sessionId = uuid 0, metadata = None,
                           payload = DonePayload StatusInterrupted None
                             \<lparr> inputTokens = 0, outputTokens = 0, toolUses = 0,
                               totalCostUsd = None \<rparr>
                             (of_int (now 1 - now 0)) \<rparr>],
              runCalls = 0 \<rparr>) \<and>
   (list_ex (\<lambda>t. abortedAt (signalOf (taskOptions t)) 0) tasks \<longrightarrow>
      runParallel now uuid sched tasks =
        Inr \<lparr> emitted =
                map (\<lambda>i. synth i \<lparr> etype = ''done'',
                                    agent = adapterAgent (taskAdapter (tasks ! i)),
                                    timestamp = now (3 * i + 2),
                                    sessionId = uuid i, metadata = None,
                                    payload = DonePayload StatusInterrupted None
                                      \<lparr> inputTokens = 0, outputTokens = 0, toolUses = 0,
                                        totalCostUsd = None \<rparr>
                                      (of_int (now (3 * i + 1) - now (3 * i))) \<rparr>)
                    [0..<length tasks],
              runCalls = 0 \<rparr>)"
proof (intro conjI impI)
  assume "registry ag = Some adapter \<and> abortedAt (signalOf opts) 0"
  then show "runAgent now uuid ag prompt opts registry =
        Inr \<lparr> emitted =
                [synth 0 \<lparr> etype = ''done'', agent = ag, timestamp = now 2,
                           sessionId = uuid 0, metadata = None,
                           payload = DonePayload StatusInterrupted None
                             \<lparr> inputTokens = 0, outputTokens = 0, toolUses = 0,
                               totalCostUsd = None \<rparr>
                             (of_int (now 1 - now 0)) \<rparr>],
              runCalls = 0 \<rparr>"
    by (simp add: runAgent_def Let_def makeSynthDone_def createEvent_def zeroUsage_def
        numeral_2_eq_2)
next
  assume pre: "list_ex (\<lambda>t. abortedAt (signalOf (taskOptions t)) 0) tasks"
  then have ne: "tasks \<noteq> []" by auto
  from pre ne show "runParallel now uuid sched tasks =
        Inr \<lparr> emitted =
                map (\<lambda>i. synth i \<lparr> etype = ''done'',
                                    agent = adapterAgent (taskAdapter (tasks ! i)),
                                    timestamp = now (3 * i + 2),
                                    sessionId = uuid i, metadata = None,
                                    payload = DonePayload StatusInterrupted None
                                      \<lparr> inputTokens = 0, outputTokens = 0, toolUses = 0,
                                        totalCostUsd = None \<rparr>
                                      (of_int (now (3 * i + 1) - now (3 * i))) \<rparr>)
                    [0..<length tasks],
              runCalls = 0 \<rparr>"
    by (simp add: runParallel_def preAbortedDones_map makeSynthDone_def createEvent_def
        zeroUsage_def add.commute [of _ 2] numeral_2_eq_2)
qed


theorem preAborted_synthesized_done_witness:
  "runAgent sampleClock sampleUuid ''mock'' ''hi'' (Some preAbortedOptions)
     [''mock'' \<mapsto> createMockAdapter ''mock'' [doneEvent ''mock'' StatusSuccess ''sid''] None] =
   Inr \<lparr> emitted =
           [synth 0 \<lparr> etype = ''done'', agent = ''mock'', timestamp = 1002,
                      sessionId = ''uuid-'', metadata = None,
                      payload = DonePayload StatusInterrupted None
                        \<lparr> inputTokens = 0, outputTokens = 0, toolUses = 0,
                          totalCostUsd = None \<rparr> 1 \<rparr>],
         runCalls = 0 \<rparr> \<and>
   runParallel sampleClock sampleUuid firstSettled
     [\<lparr> taskAdapter = createMockAdapter ''a'' [doneEvent ''a'' StatusSuccess ''sid''] None,
        taskPrompt = ''hi'', taskOptions = None \<rparr>,
      \<lparr> taskAdapter = createMockAdapter ''b'' [doneEvent ''b'' StatusSuccess ''sid''] None,
        taskPrompt = ''hi'', taskOptions = Some preAbortedOptions \<rparr>] =
   Inr \<lparr> emitted =
           [synth 0 \<lparr> etype = ''done'', agent = ''a'', timestamp = 1002,
                      sessionId = ''uuid-'', metadata = None,
                      payload = DonePayload StatusInterrupted None
                        \<lparr> inputTokens = 0, outputTokens = 0, toolUses = 0,
                          totalCostUsd = None \<rparr> 1 \<rparr>,
            synth 1 \<lparr> etype = ''done'', agent = ''b'', timestamp = 1005,
                      sessionId = ''uuid-x'', metadata = None,
                      payload = DonePayload StatusInterrupted None
                        \<lparr> inputTokens = 0, outputTokens = 0, toolUses = 0,
                          totalCostUsd = None \<rparr> 1 \<rparr>],
         runCalls = 0 \<rparr>"
  using preAborted_synthesized_done
    [where registry = "[''mock'' \<mapsto> createMockAdapter ''mock''
                          [doneEvent ''mock'' StatusSuccess ''sid''] None]"
       and ag = "''mock''"
       and adapter = "createMockAdapter ''mock'' [doneEvent ''mock'' StatusSuccess ''sid''] None"
       and prompt = "''hi''" and opts = "Some preAbortedOptions"
       and now = sampleClock and uuid = sampleUuid and sched = firstSettled
       and tasks = "[\<lparr> taskAdapter = createMockAdapter ''a'' [doneEvent ''a'' StatusSuccess ''sid''] None,
                       taskPrompt = ''hi'', taskOptions = None \<rparr>,
                     \<lparr> taskAdapter = createMockAdapter ''b'' [doneEvent ''b'' StatusSuccess ''sid''] None,
                       taskPrompt = ''hi'', taskOptions = Some preAbortedOptions \<rparr>]"]
  by (simp add: signalOf_def abortedAt_def preAbortedOptions_def noOptions_def
      sampleClock_def sampleUuid_def createMockAdapter_def upt_rec numeral_2_eq_2)

lemma driven_last_synthesized:
  assumes "drivenThrown signal k es fin = None" and "\<forall>e \<in> set es. \<not> isDone e"
  shows "synthesized (last (driven now ag signal startTime c k sid es fin))"
  using assms
proof (induction es arbitrary: k sid)
  case Nil
  then show ?case
    by (auto split: if_splits Completion.splits sum.splits)
next
  case (Cons e es)
  show ?case
  proof (cases "abortedAt signal (k + 1)")
    case True
    then show ?thesis by simp
  next
    case False
    with Cons.prems have nd: "etype e \<noteq> ''done''"
      and rest: "drivenThrown signal (k + 1) es fin = None" "\<forall>e \<in> set es. \<not> isDone e"
      by (auto simp: isDone_def)
    from driven_one_done [OF rest(1), of now ag startTime c "sessionId e"]
    have "driven now ag signal startTime c (k + 1) (sessionId e) es fin \<noteq> []" by simp
    with Cons.IH [OF rest, of "sessionId e"] False nd show ?thesis by simp
  qed
qed

text \<open>
  C6, as stated, fails for an event that the adapter has yielded and the driver drops: when
  the cancellation token fires while the driver awaits the next event, the event that
  arrives is not passed on and its session id is not taken over. Here the adapter's events
  carry the ids \<open>sid-1\<close>, \<open>sid-2\<close>, \<open>sid-3\<close> and the token fires after the driver has
  passed on the second: the driver still calls \<open>next()\<close> a third time, which gives the
  event with \<open>sid-3\<close>, and the \<open>done\<close> it then makes carries \<open>sid-2\<close>.
\<close>

theorem synthesized_sessionId_dropped_event_counterexample:
  "fst (genNext (snd (genNext (snd (genNext
     (run (createMockAdapter ''mock''
             [textEvent ''mock'' ''a'' ''sid-1'', textEvent ''mock'' ''b'' ''sid-2'',
              textEvent ''mock'' ''c'' ''sid-3''] None)
        ''hi'' (Some (noOptions\<lparr> abortSignal := Some (Some 3) \<rparr>)))))))) =
     Resolved (IterValue (textEvent ''mock'' ''c'' ''sid-3'')) \<and>
   runAgent sampleClock sampleUuid ''mock'' ''hi''
     (Some (noOptions\<lparr> abortSignal := Some (Some 3) \<rparr>))
     [''mock'' \<mapsto> createMockAdapter ''mock''
        [textEvent ''mock'' ''a'' ''sid-1'', textEvent ''mock'' ''b'' ''sid-2'',
         textEvent ''mock'' ''c'' ''sid-3''] None] =
   Inr \<lparr> emitted =
           [forward 0 (textEvent ''mock'' ''a'' ''sid-1''),
            forward 0 (textEvent ''mock'' ''b'' ''sid-2''),
            synth 0 \<lparr> etype = ''done'', agent = ''mock'', timestamp = 1002,
                      sessionId = ''sid-2'', metadata = None,
                      payload = DonePayload StatusInterrupted None
                        \<lparr> inputTokens = 0, outputTokens = 0, toolUses = 0,
                          totalCostUsd = None \<rparr> 1 \<rparr>],
         runCalls = 1 \<rparr> \<and>
   ''sid-2'' \<noteq> ''sid-3''"
  by (simp add: runAgent_driven createMockAdapter_def genNext_def signalOf_def abortedAt_def
      noOptions_def textEvent_def makeSynthDone_def createEvent_def zeroUsage_def
      sampleClock_def sampleUuid_def)

text \<open>
  C6 (amended): in what both drivers yield, every event the driver makes itself (the
  \<open>done\<close> on cancellation, the \<open>ADAPTER_ERROR\<close> and \<open>MISSING_DONE\<close> errors and the \<open>done\<close>
  after them) carries the session id of the last event of its task's adapter that the driver
  passed on before it, and the driver-generated provisional id if there is none. And such
  events are there: whenever what the generators throw is an \<open>Error\<close> or a value with a
  string conversion, the driver ends normally and what it yields for a task is not empty
  and ends with a \<open>done\<close>, which the driver has made itself when the task's generator holds
  none.
\<close>

theorem synthesized_events_inherit_sessionId:
  "(registry ag = Some adapter \<and> run adapter prompt opts = gen \<longrightarrow>
      inheritsSessionIds uuid (yielded (runAgent now uuid ag prompt opts registry)) \<and>
      ((\<forall>err. completion gen = Throws err \<longrightarrow> (\<exists>msg. errorText err = Inr msg)) \<longrightarrow>
       (\<exists>r. runAgent now uuid ag prompt opts registry = Inr r \<and>
            emitted r \<noteq> [] \<and> isDone (ev (last (emitted r))) \<and>
            ((\<forall>e \<in> set (yields gen). \<not> isDone e) \<longrightarrow> synthesized (last (emitted r)))))) \<and>
   inheritsSessionIds uuid (yielded (runParallel now uuid sched tasks)) \<and>
   ((\<forall>t \<in> set tasks. \<forall>err.
       completion (run (taskAdapter t) (taskPrompt t) (taskOptions t)) = Throws err \<longrightarrow>
       (\<exists>msg. errorText err = Inr msg)) \<longrightarrow>
    (\<exists>r. runParallel now uuid sched tasks = Inr r \<and>
         (\<forall>j < length tasks.
            projection j (emitted r) \<noteq> [] \<and>
            isDone (ev (last (projection j (emitted r)))) \<and>
            ((\<forall>e \<in> set (yields (run (taskAdapter (tasks ! j)) (taskPrompt (tasks ! j))
                                  (taskOptions (tasks ! j)))). \<not> isDone e) \<longrightarrow>
             synthesized (last (projection j (emitted r)))))))"
proof (intro conjI impI)
  assume reg: "registry ag = Some adapter \<and> run adapter prompt opts = gen"
  have "sidsOk uuid [synth 0 (makeSynthDone now 1 ag StatusInterrupted (uuid 0) (now 0))]"
    by (simp add: makeSynthDone_def createEvent_def)
  moreover have "sidsOk uuid (driven now ag (signalOf opts) (now 0) 1 0 (uuid 0)
      (yields gen) (completion gen))"
    by (rule driven_sidsOk) simp
  ultimately have "sidsOk uuid (yielded (runAgent now uuid ag prompt opts registry))"
    using reg by (auto simp: runAgent_driven yielded_def split: option.splits)
  then show "inheritsSessionIds uuid (yielded (runAgent now uuid ag prompt opts registry))"
    by (rule sidsOk_inherits)
next
  assume reg: "registry ag = Some adapter \<and> run adapter prompt opts = gen"
    and conv: "\<forall>err. completion gen = Throws err \<longrightarrow> (\<exists>msg. errorText err = Inr msg)"
  show "\<exists>r. runAgent now uuid ag prompt opts registry = Inr r \<and>
            emitted r \<noteq> [] \<and> isDone (ev (last (emitted r))) \<and>
            ((\<forall>e \<in> set (yields gen). \<not> isDone e) \<longrightarrow> synthesized (last (emitted r)))"
  proof (cases "abortedAt (signalOf opts) 0")
    case True
    with reg show ?thesis by (simp add: runAgent_driven)
  next
    case False
    let ?out = "driven now ag (signalOf opts) (now 0) 1 0 (uuid 0) (yields gen) (completion gen)"
    from conv have none: "drivenThrown (signalOf opts) 0 (yields gen) (completion gen) = None"
      by (intro drivenThrown_convertible) blast
    from driven_one_done [OF none, of now ag "now 0" 1 "uuid 0"]
    have ne: "?out \<noteq> []" and dn': "isDone (last (map ev ?out))"
      by simp_all
    from ne dn' have dn: "isDone (ev (last ?out))"
      by (simp add: last_map)
    from driven_last_synthesized [OF none, of now ag "now 0" 1 "uuid 0"]
    have sy: "(\<forall>e \<in> set (yields gen). \<not> isDone e) \<longrightarrow> synthesized (last ?out)"
      by blast
    from reg False none ne dn sy show ?thesis
      by (simp add: runAgent_driven)
  qed
next
  show "inheritsSessionIds uuid (yielded (runParallel now uuid sched tasks))"
  proof (cases "tasks = [] \<or> list_ex (\<lambda>t. abortedAt (signalOf (taskOptions t)) 0) tasks")
    case True
    have "inheritsSessionIds uuid []"
      by (simp add: inheritsSessionIds_def)
    moreover have "inheritsSessionIds uuid (preAbortedDones now uuid 0 tasks)"
      by (rule sidsOk_inherits [OF preAbortedDones_sidsOk])
    ultimately show ?thesis
      using True by (cases "tasks = []") (simp_all add: runParallel_def yielded_def)
  next
    case False
    obtain states pending where
      sa: "scheduleAll (initialStates now uuid tasks) = (states, pending)"
      by (cases "scheduleAll (initialStates now uuid tasks)")
    from wellFormed_initial [OF sa] have wf: "wellFormed states pending" by simp
    let ?loop = "parallelLoop now sched (taskSignals tasks) states pending (length tasks) 0"
    from parallelLoop_sidsOk [OF wf curMatches_initial [OF sa]]
    have "sidsOk uuid (fst ?loop)" .
    moreover from False sa have "yielded (runParallel now uuid sched tasks) = fst ?loop"
      by (cases ?loop) (auto simp: runParallel_def yielded_def split: option.splits)
    ultimately show ?thesis
      by (simp add: sidsOk_inherits)
  qed
next
  assume conv: "\<forall>t \<in> set tasks. \<forall>err.
       completion (run (taskAdapter t) (taskPrompt t) (taskOptions t)) = Throws err \<longrightarrow>
       (\<exists>msg. errorText err = Inr msg)"
  from runParallel_sessions [OF conv, of now uuid sched]
  obtain r where r: "runParallel now uuid sched tasks = Inr r"
    and cut: "\<And>j. j < length tasks \<Longrightarrow>
        cutSessionShape j (adapterAgent (taskAdapter (tasks ! j))) (uuid j)
          (yields (run (taskAdapter (tasks ! j)) (taskPrompt (tasks ! j))
             (taskOptions (tasks ! j))))
          (completion (run (taskAdapter (tasks ! j)) (taskPrompt (tasks ! j))
             (taskOptions (tasks ! j))))
          (map untimed (projection j (emitted r)))"
    by blast
  have "projection j (emitted r) \<noteq> [] \<and>
        isDone (ev (last (projection j (emitted r)))) \<and>
        ((\<forall>e \<in> set (yields (run (taskAdapter (tasks ! j)) (taskPrompt (tasks ! j))
                              (taskOptions (tasks ! j)))). \<not> isDone e) \<longrightarrow>
         synthesized (last (projection j (emitted r))))"
    if j: "j < length tasks" for j
  proof -
    from j conv have c: "\<And>err. completion (run (taskAdapter (tasks ! j)) (taskPrompt (tasks ! j))
        (taskOptions (tasks ! j))) = Throws err \<Longrightarrow> \<exists>msg. errorText err = Inr msg"
      by (metis nth_mem)
    from cutSessionShape_terminal [OF cut [OF j] c]
    have ne: "projection j (emitted r) \<noteq> []"
      and t: "isDone (ev (last (map untimed (projection j (emitted r)))))"
        "(\<forall>e \<in> set (yields (run (taskAdapter (tasks ! j)) (taskPrompt (tasks ! j))
                              (taskOptions (tasks ! j)))). \<not> isDone e) \<longrightarrow>
         synthesized (last (map untimed (projection j (emitted r))))"
      by auto
    from ne t show ?thesis by (simp add: last_map)
  qed
  with r show "\<exists>r. runParallel now uuid sched tasks = Inr r \<and>
         (\<forall>j < length tasks.
            projection j (emitted r) \<noteq> [] \<and>
            isDone (ev (last (projection j (emitted r)))) \<and>
            ((\<forall>e \<in> set (yields (run (taskAdapter (tasks ! j)) (taskPrompt (tasks ! j))
                                  (taskOptions (tasks ! j)))). \<not> isDone e) \<longrightarrow>
             synthesized (last (projection j (emitted r)))))"
    by blast
qed

text \<open>
  The session ids in three runs: an adapter that throws after one event in \<open>runAgent\<close>;
  the same beside an adapter that runs to its \<open>done\<close> in \<open>runParallel\<close>; and those two
  tasks cancelled in the first round, before any event is passed on. Each entry gives the
  task, whether the driver made the event, its type and its session id.
\<close>

theorem synthesized_events_inherit_sessionId_witness:
  "inheritsSessionIds sampleUuid
     (yielded (runAgent sampleClock sampleUuid ''claude-code'' ''hi'' None
        [''claude-code'' \<mapsto> createMockAdapter ''claude-code''
           [textEvent ''claude-code'' ''before-error'' ''sid-a''] (Some 1)])) \<and>
   map (\<lambda>x. (task x, synthesized x, etype (ev x), sessionId (ev x)))
     (yielded (runAgent sampleClock sampleUuid ''claude-code'' ''hi'' None
        [''claude-code'' \<mapsto> createMockAdapter ''claude-code''
           [textEvent ''claude-code'' ''before-error'' ''sid-a''] (Some 1)])) =
     [(0, False, ''text'', ''sid-a''), (0, True, ''error'', ''sid-a''),
      (0, True, ''done'', ''sid-a'')] \<and>
   inheritsSessionIds sampleUuid
     (yielded (runParallel sampleClock sampleUuid firstSettled isolationTasks)) \<and>
   map (\<lambda>x. (task x, synthesized x, etype (ev x), sessionId (ev x)))
     (yielded (runParallel sampleClock sampleUuid firstSettled isolationTasks)) =
     [(0, False, ''text'', ''sid-a''), (1, False, ''text'', ''sid-b''),
      (0, True, ''error'', ''sid-a''), (0, True, ''done'', ''sid-a''),
      (1, False, ''done'', ''sid-b'')] \<and>
   map (\<lambda>x. (task x, synthesized x, etype (ev x), sessionId (ev x)))
     (yielded (runParallel sampleClock sampleUuid abortWins
        (map (\<lambda>t. t\<lparr> taskOptions := Some (noOptions\<lparr> abortSignal := Some (Some 1) \<rparr>) \<rparr>)
           isolationTasks))) =
     [(0, True, ''done'', ''uuid-''), (1, True, ''done'', ''uuid-x'')]"
proof -
  have a: "map (\<lambda>x. (task x, synthesized x, etype (ev x), sessionId (ev x)))
     (yielded (runAgent sampleClock sampleUuid ''claude-code'' ''hi'' None
        [''claude-code'' \<mapsto> createMockAdapter ''claude-code''
           [textEvent ''claude-code'' ''before-error'' ''sid-a''] (Some 1)])) =
     [(0, False, ''text'', ''sid-a''), (0, True, ''error'', ''sid-a''),
      (0, True, ''done'', ''sid-a'')]"
    by (simp add: runAgent_driven yielded_def createMockAdapter_def signalOf_def abortedAt_def
        errorText_def textEvent_def createEvent_def makeSynthError_def makeSynthDone_def)
  have b: "map (\<lambda>x. (task x, synthesized x, etype (ev x), sessionId (ev x)))
     (yielded (runParallel sampleClock sampleUuid firstSettled isolationTasks)) =
     [(0, False, ''text'', ''sid-a''), (1, False, ''text'', ''sid-b''),
      (0, True, ''error'', ''sid-a''), (0, True, ''done'', ''sid-a''),
      (1, False, ''done'', ''sid-b'')]"
    by code_simp
  have c: "map (\<lambda>x. (task x, synthesized x, etype (ev x), sessionId (ev x)))
     (yielded (runParallel sampleClock sampleUuid abortWins
        (map (\<lambda>t. t\<lparr> taskOptions := Some (noOptions\<lparr> abortSignal := Some (Some 1) \<rparr>) \<rparr>)
           isolationTasks))) =
     [(0, True, ''done'', ''uuid-''), (1, True, ''done'', ''uuid-x'')]"
    by code_simp
  from a b c synthesized_events_inherit_sessionId
    [where registry = "[''claude-code'' \<mapsto> createMockAdapter ''claude-code''
                          [textEvent ''claude-code'' ''before-error'' ''sid-a''] (Some 1)]"
       and ag = "''claude-code''"
       and adapter = "createMockAdapter ''claude-code''
                        [textEvent ''claude-code'' ''before-error'' ''sid-a''] (Some 1)"
       and gen = "run (createMockAdapter ''claude-code''
                        [textEvent ''claude-code'' ''before-error'' ''sid-a''] (Some 1))
                    ''hi'' None"
       and now = sampleClock and uuid = sampleUuid and prompt = "''hi''" and opts = None
       and sched = firstSettled and tasks = isolationTasks]
  show ?thesis by simp
qed

section \<open>Theorems: Gemini adapter\<close>

lemma initStep_append:
  assumes "initStep a xs b" and "initStep b ys c"
  shows "initStep a (xs @ ys) c"
proof (cases a)
  case True
  with assms show ?thesis by (simp add: initStep_def)
next
  case False
  show ?thesis
  proof (cases xs)
    case Nil
    with False assms show ?thesis by (simp add: initStep_def)
  next
    case (Cons x xs')
    with False assms(1) have "b" "isInit x" "filter isInit xs' = []"
      by (simp_all add: initStep_def)
    with assms(2) False Cons show ?thesis by (simp add: initStep_def)
  qed
qed

lemma initStep_nothing: "initStep a [] a"
  by (simp add: initStep_def)

lemma initStep_other:
  assumes "a" and "filter isInit out = []"
  shows "initStep a out a"
  using assms by (simp add: initStep_def)

lemma ensureInit_step:
  "initStep (initYielded st) (fst (ensureInit ctx src st)) (initYielded (snd (ensureInit ctx src st)))"
  by (simp add: ensureInit_def yieldEvent_def createEvent_def initStep_def isInit_def)

lemma ensureInit_sets:
  "initYielded (snd (ensureInit ctx src st))"
  by (simp add: ensureInit_def yieldEvent_def)

lemma handleTyped_no_init:
  "filter isInit (fst (handleTyped ctx st eventType message)) = []"
  by (simp add: handleTyped_def yieldEvent_def createEvent_def isInit_def Let_def
           split: option.splits prod.splits)

lemma handleTyped_flag:
  "initYielded (snd (handleTyped ctx st eventType message)) = initYielded st"
  by (simp add: handleTyped_def yieldEvent_def Let_def split: option.splits prod.splits)

lemma handleFail_step:
  "initStep (initYielded st) (fst (handleFail ctx st error raw))
     (initYielded (snd (handleFail ctx st error raw)))"
proof -
  obtain out1 st1 where e: "ensureInit ctx None st = (out1, st1)"
    by (cases "ensureInit ctx None st")
  have a: "initStep (initYielded st) out1 (initYielded st1)"
    using ensureInit_step [of st ctx None] e by simp
  have b: "initYielded st1"
    using ensureInit_sets [of ctx None st] e by simp
  show ?thesis
  proof (cases "doneYielded st1")
    case True
    with e a show ?thesis by (simp add: handleFail_def)
  next
    case False
    let ?y = "yieldEvent ctx st1 ''error''
                (ErrorPayload (Some ''NDJSON_PARSE_ERROR'')
                   (''Failed to parse NDJSON line: '' @ error @ ''; raw: '' @ raw) True)"
    obtain out2 st2 where y: "?y = (out2, st2)"
      by (cases ?y)
    have "initStep (initYielded st1) out2 (initYielded st2)"
      using b y by (auto simp add: yieldEvent_def createEvent_def initStep_def isInit_def)
    from initStep_append [OF a this] e False y show ?thesis
      by (simp add: handleFail_def)
  qed
qed

lemma handleOk_step:
  "initStep (initYielded st) (fst (handleOk ctx st parsedData))
     (initYielded (snd (handleOk ctx st parsedData)))"
proof -
  define st0 where
    "st0 = st\<lparr> currentSessionId :=
                 orDefault (loadSessionId (Some parsedData)) (currentSessionId st) \<rparr>"
  define message where "message = asRecord (Some parsedData)"
  have flag: "initYielded st0 = initYielded st" by (simp add: st0_def)
  show ?thesis
  proof (cases "asString (getProp message ''type'')")
    case None
    then show ?thesis
      using flag by (simp add: handleOk_def Let_def st0_def [symmetric] message_def [symmetric]
                               initStep_nothing)
  next
    case (Some eventType)
    obtain out1 st1 where e: "ensureInit ctx (Some message) st0 = (out1, st1)"
      by (cases "ensureInit ctx (Some message) st0")
    have a: "initStep (initYielded st) out1 (initYielded st1)"
      using ensureInit_step [of st0 ctx "Some message"] e flag by simp
    have b: "initYielded st1"
      using ensureInit_sets [of ctx "Some message" st0] e by simp
    show ?thesis
    proof (cases "eventType = ''init'' \<or> doneYielded st1")
      case True
      with Some e a show ?thesis
        by (auto simp add: handleOk_def Let_def st0_def [symmetric] message_def [symmetric])
    next
      case False
      let ?t = "handleTyped ctx st1 eventType message"
      obtain out2 st2 where t: "?t = (out2, st2)"
        by (cases ?t)
      have "initStep (initYielded st1) out2 (initYielded st2)"
        using b initStep_other [OF b handleTyped_no_init [of ctx st1 eventType message]]
          handleTyped_flag [of ctx st1 eventType message] t
        by simp
      from initStep_append [OF a this] Some e False t show ?thesis
        by (simp add: handleOk_def Let_def st0_def [symmetric] message_def [symmetric])
    qed
  qed
qed

lemma handleParsed_step:
  "initStep (initYielded st) (fst (handleParsed ctx st parsed))
     (initYielded (snd (handleParsed ctx st parsed)))"
  by (cases parsed) (simp_all add: handleParsed_def handleOk_step handleFail_step)

lemma consumeResults_step:
  "initStep (initYielded st) (fst (consumeResults ctx st results))
     (initYielded (snd (consumeResults ctx st results)))"
proof (induction results arbitrary: st)
  case Nil
  show ?case by (simp add: initStep_nothing)
next
  case (Cons parsed rest)
  obtain out1 st1 where h: "handleParsed ctx st parsed = (out1, st1)"
    by (cases "handleParsed ctx st parsed")
  have a: "initStep (initYielded st) out1 (initYielded st1)"
    using handleParsed_step [of st ctx parsed] h by simp
  obtain out2 st2 where r: "consumeResults ctx st1 rest = (out2, st2)"
    by (cases "consumeResults ctx st1 rest")
  from initStep_append [OF a Cons.IH [of st1]] h r show ?case
    by simp
qed

lemma catchBlock_step:
  "initStep (initYielded st) (catchBlock ctx st error aborted) True"
proof -
  obtain out1 st1 where e: "ensureInit ctx None st = (out1, st1)"
    by (cases "ensureInit ctx None st")
  have a: "initStep (initYielded st) out1 (initYielded st1)"
    using ensureInit_step [of st ctx None] e by simp
  have b: "initYielded st1"
    using ensureInit_sets [of ctx None st] e by simp
  have c: "initStep (initYielded st1) out True" if "filter isInit out = []" for out
    using b that by (simp add: initStep_def)
  have "\<exists>out. catchBlock ctx st error aborted = out1 @ out \<and> filter isInit out = []"
    using e by (simp add: catchBlock_def createEvent_def isInit_def)
  then obtain out where "catchBlock ctx st error aborted = out1 @ out"
    and "filter isInit out = []" by blast
  with initStep_append [OF a c] show ?thesis by simp
qed

lemma afterClose_step:
  "initStep (initYielded st) (afterClose ctx st close aborted) True"
proof -
  obtain out1 st1 where e: "ensureInit ctx None st = (out1, st1)"
    by (cases "ensureInit ctx None st")
  have a: "initStep (initYielded st) out1 (initYielded st1)"
    using ensureInit_step [of st ctx None] e by simp
  have b: "initYielded st1"
    using ensureInit_sets [of ctx None st] e by simp
  have c: "initStep (initYielded st1) out True" if "filter isInit out = []" for out
    using b that by (simp add: initStep_def)
  have "\<exists>out. afterClose ctx st close aborted = out1 @ out \<and> filter isInit out = []"
    using e by (simp add: afterClose_def createEvent_def isInit_def Let_def)
  then obtain out where "afterClose ctx st close aborted = out1 @ out"
    and "filter isInit out = []" by blast
  with initStep_append [OF a c] show ?thesis by simp
qed

lemma initStep_whole:
  assumes "initStep False out True"
  shows "out \<noteq> [] \<and> etype (hd out) = ''init'' \<and>
         length (filter (\<lambda>e. etype e = ''init'') out) = 1"
proof (cases out)
  case Nil
  with assms show ?thesis by (simp add: initStep_def)
next
  case (Cons e es)
  with assms show ?thesis by (simp add: initStep_def isInit_def filter_empty_conv)
qed

lemma GeminiAdapter_run_initStep:
  "initStep False (fst (GeminiAdapter_run JSON_parse decodeBytes now uuid env prompt opts)) True"
proof -
  have tail: "initStep False (out @ rest) True"
    if "consumeResults ctx st0 results = (out, st1)" and "initYielded st0 = False"
      and "initStep (initYielded st1) rest True"
    for ctx st0 results out st1 rest
    using initStep_append [OF _ that(3), of False out]
      consumeResults_step [of st0 ctx results] that(1,2) by simp
  show ?thesis
    unfolding GeminiAdapter_run_def Let_def
    by (auto split: option.splits sum.splits prod.splits
             intro!: tail catchBlock_step [where st = "\<lparr> initYielded = False, doneYielded = d,
                 currentSessionId = s, clockReads = c, uuidCalls = u \<rparr>" for d s c u, simplified]
               catchBlock_step afterClose_step)
qed

text \<open>
  C9: whatever the environment of a run of \<open>GeminiAdapter.run\<close> does (lines that parse,
  lines that do not, a process that exits without output, a failure while starting or
  reading, an abort), the run yields at least one event, its first event is \<open>init\<close>, and
  \<open>init\<close> occurs exactly once among its events, so it precedes every other event.
\<close>

theorem GeminiAdapter_run_init_first:
  "fst (GeminiAdapter_run JSON_parse decodeBytes now uuid env prompt opts) \<noteq> [] \<and>
   etype (hd (fst (GeminiAdapter_run JSON_parse decodeBytes now uuid env prompt opts))) = ''init'' \<and>
   length (filter (\<lambda>e. etype e = ''init'')
             (fst (GeminiAdapter_run JSON_parse decodeBytes now uuid env prompt opts))) = 1"
  using initStep_whole [OF GeminiAdapter_run_initStep
                             [of JSON_parse decodeBytes now uuid env prompt opts]]
  by simp

theorem GeminiAdapter_run_init_first_witness:
  "map etype (fst (GeminiAdapter_run sampleJsonParse (\<lambda>b. []) sampleClock sampleUuid
                     sampleGeminiEnv ''hello'' None)) =
     [''init'', ''text'', ''error'', ''done''] \<and>
   length (filter (\<lambda>e. etype e = ''init'')
             (fst (GeminiAdapter_run sampleJsonParse (\<lambda>b. []) sampleClock sampleUuid
                     sampleGeminiEnv ''hello'' None))) = 1"
proof -
  have "map etype (fst (GeminiAdapter_run sampleJsonParse (\<lambda>b. []) sampleClock sampleUuid
                          sampleGeminiEnv ''hello'' None)) =
          [''init'', ''text'', ''error'', ''done'']"
    by code_simp
  with GeminiAdapter_run_init_first
         [of sampleJsonParse "\<lambda>b. []" sampleClock sampleUuid sampleGeminiEnv "''hello''" None]
  show ?thesis by simp
qed

end
